theory Spec2Isabelle
  imports Complex_Main
begin

section \<open>Data model (src/src/App.tsx)\<close>

text \<open>
  The simulation engine of the runner lives in \<^verbatim>\<open>src/src/App.tsx\<close>: the records of the
  entities, the transitions \<^verbatim>\<open>startGame\<close>, \<^verbatim>\<open>pauseGame\<close>, \<^verbatim>\<open>resumeGame\<close>, \<^verbatim>\<open>doJump\<close>, the
  fixed-step \<^verbatim>\<open>update\<close> and the frame callback \<^verbatim>\<open>tick\<close>.

  JavaScript numbers are modelled as follows: the counters \<^verbatim>\<open>score\<close>, \<^verbatim>\<open>hearts\<close> and
  \<^verbatim>\<open>jumpsRemaining\<close> only ever hold small integers (they are assigned integer literals and
  changed by \<open>\<plusminus>1\<close>), so they are \<open>int\<close>; every other number is a \<open>real\<close>, the
  idealisation of the double it is in the browser. Rounding of doubles is not modelled.
\<close>

datatype GameState = TITLE | PLAYING | PAUSED | GAMEOVER

datatype ObstacleType = SMALL | LARGE

text \<open>
  \<^verbatim>\<open>Player\<close>, \<^verbatim>\<open>Obstacle\<close> and \<^verbatim>\<open>HeartPickup\<close> all carry \<^verbatim>\<open>x, y, w, h\<close>; a firefly carries
  \<^verbatim>\<open>x, y\<close>. The shared fields are a base record that the entity records extend. The optional
  \<^verbatim>\<open>remove?: boolean\<close> of an obstacle is a \<open>bool\<close> (absent reads as false in \<^verbatim>\<open>!o.remove\<close>).
  The field \<^verbatim>\<open>type\<close> of an obstacle is \<open>otype\<close>, the field \<^verbatim>\<open>speed\<close> of a firefly is
  \<open>twinkle\<close> (the game record has a \<^verbatim>\<open>speed\<close> of its own).
\<close>

record point =
  x :: real
  y :: real

record box = point +
  w :: real
  h :: real

record Player = box +
  vy :: real
  onGround :: bool
  jumpsRemaining :: int
  hitCooldown :: real

record Obstacle = box +
  otype :: ObstacleType
  hit :: bool
  scored :: bool
  remove :: bool

record HeartPickup = box +
  taken :: bool

record Firefly = point +
  r :: real
  phase :: real
  twinkle :: real

text \<open>
  What the engine tells the outside: the callbacks \<^verbatim>\<open>onHeartsChange\<close>, \<^verbatim>\<open>onScore\<close>,
  \<^verbatim>\<open>onGameOver\<close> of the game record and the calls of \<^verbatim>\<open>playSfx\<close>. The model appends each
  call to a trace, in the order the code makes them.
\<close>

datatype sfx = SfxJump | SfxHit | SfxPickup

datatype event = OnHeartsChange int | OnScore int | OnGameOver int | PlaySfx sfx

text \<open>
  The record \<open>engine\<close> holds the fields of \<^verbatim>\<open>gameRef.current\<close> (from \<open>state\<close> to
  \<open>hearts\<close>, in the order of the source) and, after them, the other mutable cells that
  \<^verbatim>\<open>update\<close> reads or writes: \<^verbatim>\<open>firefliesRef.current\<close>, \<^verbatim>\<open>sizeRef.current\<close> (\<open>size_w\<close>,
  \<open>size_h\<close>), the width of \<^verbatim>\<open>imagesRef.current.backdrop\<close> when that asset is present, and
  the trace of callbacks.
\<close>

record engine =
  state :: GameState
  t :: real
  bgOffset :: real
  speed :: real
  difficultySeconds :: real
  u :: real
  G :: real
  JUMP_V :: real
  HIT_BUFFER :: real
  groundY :: real
  player :: Player
  obstacles :: "Obstacle list"
  heartPickups :: "HeartPickup list"
  obsTimer :: real
  obsInterval :: real
  lastObstacleX :: real
  minGapPx :: real
  heartTimer :: real
  heartInterval :: real
  score :: int
  hearts :: int
  fireflies :: "Firefly list"
  size_w :: real
  size_h :: real
  backdrop_w :: "real option"
  events :: "event list"

text \<open>
  The values \<^verbatim>\<open>Math.random()\<close> returns during one call of \<^verbatim>\<open>update\<close>, one field for each
  call site (lines 652, 653, 680, 683, 688, 689). Every call site runs at most once in a
  step, so a record of the six results is the same as drawing them in turn.
\<close>

record rolls =
  roll_interval :: real
  roll_type :: real
  roll_heart :: real
  roll_heart_interval :: real
  roll_heart_x :: real
  roll_heart_y :: real

section \<open>Helpers\<close>

definition DESIGN_HEIGHT :: real where
  "DESIGN_HEIGHT = 540"

text \<open>\<^verbatim>\<open>clamp = (v, a, b) => Math.max(a, Math.min(b, v))\<close>\<close>

definition clamp :: "'a::linorder \<Rightarrow> 'a \<Rightarrow> 'a \<Rightarrow> 'a" where
  "clamp v a b = max a (min b v)"

text \<open>
  The remainder \<^verbatim>\<open>a % b\<close> of JavaScript on numbers: the quotient is truncated towards
  zero. For \<open>b = 0\<close> JavaScript gives NaN, which a real cannot express; the model gives
  \<open>a\<close> there.
\<close>

definition js_rem :: "real \<Rightarrow> real \<Rightarrow> real" where
  "js_rem a b =
     (let q = a / b
      in a - b * of_int (if q < 0 then \<lceil>q\<rceil> else \<lfloor>q\<rfloor>))"

text \<open>The local \<^verbatim>\<open>shrink\<close> of \<^verbatim>\<open>update\<close> (lines 708-712) and the overlap test used twice.\<close>

definition shrink :: "real \<Rightarrow> real \<Rightarrow> real \<Rightarrow> real \<Rightarrow> box" where
  "shrink bx by bw bh =
     (let sx = bw * 0.1; sy = bh * 0.1
      in \<lparr>x = bx + sx * 0.5, y = by + sy * 0.5, w = bw - sx, h = bh - sy\<rparr>)"

definition collide :: "box \<Rightarrow> box \<Rightarrow> bool" where
  "collide pr rr \<longleftrightarrow>
     x pr < x rr + w rr \<and> x pr + w pr > x rr \<and> y pr < y rr + h rr \<and> y pr + h pr > y rr"

definition shrunk :: "'a box_scheme \<Rightarrow> box" where
  "shrunk b = shrink (x b) (y b) (w b) (h b)"

definition emit :: "event \<Rightarrow> engine \<Rightarrow> engine" where
  "emit ev e = e\<lparr>events := events e @ [ev]\<rparr>"

section \<open>Transitions\<close>

text \<open>
  \<^verbatim>\<open>startGame\<close> (lines 470-513). Audio and the React state setters are outside the model.
  The unit \<^verbatim>\<open>u\<close> is recomputed from \<^verbatim>\<open>sizeRef\<close> here; \<^verbatim>\<open>g.u\<close> and \<^verbatim>\<open>g.groundY\<close> are not
  written.
\<close>

definition startGame :: "engine \<Rightarrow> engine" where
  "startGame e =
     (let un = size_h e / DESIGN_HEIGHT; pW = 48 * un; pH = 64 * un
      in e\<lparr>state := PLAYING, t := 0, bgOffset := 0, speed := 350, difficultySeconds := 0,
            obstacles := [], heartPickups := [], obsTimer := 0, obsInterval := 2.1,
            lastObstacleX := size_w e, minGapPx := 280 * un, heartTimer := 2.2,
            heartInterval := 5.5,
            player := \<lparr>x = min 140 (size_w e * 0.22), y = groundY e - pH, w = pW, h = pH,
                        vy = 0, onGround = True, jumpsRemaining = 2, hitCooldown = 0\<rparr>,
            score := 0, hearts := 3\<rparr>)"

definition pauseGame :: "engine \<Rightarrow> engine" where
  "pauseGame e = (if state e \<noteq> PLAYING then e else e\<lparr>state := PAUSED\<rparr>)"

definition resumeGame :: "engine \<Rightarrow> engine" where
  "resumeGame e = (if state e \<noteq> PAUSED then e else e\<lparr>state := PLAYING\<rparr>)"

definition restartFromGameOver :: "engine \<Rightarrow> engine" where
  "restartFromGameOver e = startGame e"

text \<open>\<^verbatim>\<open>doJump\<close> (lines 560-570).\<close>

definition doJump :: "engine \<Rightarrow> engine" where
  "doJump e =
     (if state e \<noteq> PLAYING then e
      else let p = player e
           in if jumpsRemaining p > 0
              then emit (PlaySfx SfxJump)
                     (e\<lparr>player := p\<lparr>vy := JUMP_V e, onGround := False,
                                     jumpsRemaining := jumpsRemaining p - 1\<rparr>\<rparr>)
              else e)"

text \<open>
  \<^verbatim>\<open>handleResize\<close> (lines 223-255), the part that writes the cells of the model. The new
  client size is \<open>cw\<close>, \<open>ch\<close>; \<open>got_ctx\<close> says whether \<^verbatim>\<open>canvas.getContext("2d")\<close> gave a
  context (the function returns before touching the game when it did not); \<open>flies\<close> is
  the list \<^verbatim>\<open>makeFireflies\<close> draws at random.
\<close>

definition handleResize :: "real \<Rightarrow> real \<Rightarrow> bool \<Rightarrow> Firefly list \<Rightarrow> engine \<Rightarrow> engine" where
  "handleResize cw ch got_ctx flies e =
     (let e1 = e\<lparr>size_w := cw, size_h := ch\<rparr>
      in if \<not> got_ctx then e1
         else let un = ch / DESIGN_HEIGHT; gy = ch - 64 * un
              in e1\<lparr>u := un, G := 2600 * un, JUMP_V := - 900 * un, groundY := gy,
                     minGapPx := 280 * un,
                     obstacles := map (\<lambda>ob. ob\<lparr>y := gy - h ob\<rparr>) (obstacles e1),
                     fireflies := flies\<rparr>)"

section \<open>The fixed step: \<^verbatim>\<open>update\<close> (lines 597-767)\<close>

subsection \<open>World clock, fireflies and backdrop (lines 600-616)\<close>

definition twinkle_fly :: "real \<Rightarrow> Firefly \<Rightarrow> Firefly" where
  "twinkle_fly dt f = f\<lparr>phase := phase f + twinkle f * 2.2 * dt\<rparr>"

definition drift_fly :: "real \<Rightarrow> real \<Rightarrow> Firefly \<Rightarrow> Firefly" where
  "drift_fly dx width f =
     (let f1 = f\<lparr>x := x f - dx\<rparr>
      in if x f1 < - 10 then f1\<lparr>x := width + 10\<rparr> else f1)"

definition advance_world :: "real \<Rightarrow> engine \<Rightarrow> engine" where
  "advance_world dt e0 =
     (let e1 = (if state e0 \<noteq> PAUSED then e0\<lparr>t := t e0 + dt\<rparr> else e0);
          e2 = e1\<lparr>fireflies := map (twinkle_fly dt) (fireflies e1)\<rparr>
      in if state e2 = PLAYING
         then let bgBaseSpeed = max 120 (speed e2 * 0.35)
              in e2\<lparr>bgOffset :=
                       js_rem (bgOffset e2 + bgBaseSpeed * dt)
                         (case backdrop_w e2 of Some bw \<Rightarrow> bw | None \<Rightarrow> 10000),
                     fireflies := map (drift_fly (bgBaseSpeed * dt) (size_w e2)) (fireflies e2)\<rparr>
         else e2)"

subsection \<open>Difficulty ramp and player physics (lines 620-639)\<close>

definition ramp_difficulty :: "real \<Rightarrow> engine \<Rightarrow> engine" where
  "ramp_difficulty dt e =
     (let ds = difficultySeconds e + dt
      in e\<lparr>difficultySeconds := ds, speed := 350 + ds * 4\<rparr>)"

definition player_physics :: "real \<Rightarrow> engine \<Rightarrow> engine" where
  "player_physics dt e =
     (let p = player e;
          vy1 = vy p + G e * dt;
          y1 = y p + vy1 * dt;
          groundTop = groundY e - h p;
          p1 = (if y1 \<ge> groundTop
                then (if \<not> onGround p
                      then p\<lparr>y := groundTop, vy := 0, onGround := True, jumpsRemaining := 2\<rparr>
                      else p\<lparr>y := groundTop, vy := 0\<rparr>)
                else p\<lparr>y := y1, vy := vy1, onGround := False\<rparr>)
      in e\<lparr>player := p1\<lparr>hitCooldown := max 0 (hitCooldown p1 - dt)\<rparr>\<rparr>)"

subsection \<open>Spawning with spacing (lines 642-675)\<close>

definition spawn_obstacle :: "real \<Rightarrow> rolls \<Rightarrow> engine \<Rightarrow> engine" where
  "spawn_obstacle dt rnd e0 =
     (let e = e0\<lparr>obsTimer := obsTimer e0 + dt\<rparr>;
          minInterval = 1.1;
          ramped = 2.1 - difficultySeconds e * 0.01;
          targetObsInterval = clamp ramped minInterval 2.4
      in if obsTimer e \<ge> obsInterval e
         then let canPlaceBySpacing = (lastObstacleX e < size_w e - minGapPx e)
              in if canPlaceBySpacing
                 then let ty = (if roll_type rnd < 0.7 then SMALL else LARGE);
                          un = u e;
                          mushH = (if ty = SMALL then 52 * un else 150 * un);
                          mushW = (if ty = SMALL then 52 else 92) * un;
                          ox = size_w e + 40 * un;
                          oy = groundY e - mushH
                      in e\<lparr>obsTimer := 0,
                            obsInterval := targetObsInterval + (roll_interval rnd * 0.6 - 0.3),
                            obstacles := obstacles e @
                              [\<lparr>x = ox, y = oy, w = mushW, h = mushH, otype = ty,
                                hit = False, scored = False, remove = False\<rparr>],
                            lastObstacleX := ox\<rparr>
                 else e\<lparr>obsTimer := obsInterval e * 0.7\<rparr>
         else e\<lparr>lastObstacleX := lastObstacleX e - speed e * dt\<rparr>)"

subsection \<open>Hearts (lines 677-700)\<close>

text \<open>
  The loop \<^verbatim>\<open>while (trials++ < 12 && g.obstacles.some(...)) x += 220 * u\<close>: \<open>trials\<close> counts
  the tests made so far, \<open>hx\<close> is the candidate.
\<close>

function place_heart :: "Obstacle list \<Rightarrow> real \<Rightarrow> real \<Rightarrow> nat \<Rightarrow> real \<Rightarrow> real" where
  "place_heart obs un hw trials hx =
     (if trials < 12 \<and> list_ex (\<lambda>ob. \<bar>x ob + w ob / 2 - hx\<bar> < w ob / 2 + hw + 130 * un) obs
      then place_heart obs un hw (trials + 1) (hx + 220 * un)
      else hx)"
  by pat_completeness auto
termination
  by (relation "measure (\<lambda>(obs, un, hw, trials, hx). 12 - trials)") auto

declare place_heart.simps [simp del]

definition spawn_heart :: "real \<Rightarrow> rolls \<Rightarrow> engine \<Rightarrow> engine" where
  "spawn_heart dt rnd e0 =
     (let e = e0\<lparr>heartTimer := heartTimer e0 + dt\<rparr>;
          canSpawnHeart = (hearts e < 6 \<and> heartTimer e \<ge> heartInterval e \<and> roll_heart rnd < 0.6)
      in if canSpawnHeart
         then let e1 = e\<lparr>heartTimer := 0, heartInterval := 5 + roll_heart_interval rnd * 3.5\<rparr>;
                  un = u e1;
                  hw = 30 * un;
                  hh = 28 * un;
                  hx0 = size_w e1 + 240 * un + roll_heart_x rnd * (420 * un);
                  hy = groundY e1 - (80 + roll_heart_y rnd * 70) * un;
                  hx = place_heart (obstacles e1) un hw 0 hx0
              in if hx < size_w e1 + 1000 * un
                 then e1\<lparr>heartPickups := heartPickups e1 @
                            [\<lparr>x = hx, y = hy, w = hw, h = hh, taken = False\<rparr>]\<rparr>
                 else e1
         else e)"

subsection \<open>Move world (lines 702-705)\<close>

definition move_world :: "real \<Rightarrow> engine \<Rightarrow> engine" where
  "move_world dt e =
     (let vx = speed e * dt
      in e\<lparr>obstacles := map (\<lambda>ob. ob\<lparr>x := x ob - vx\<rparr>) (obstacles e),
            heartPickups := map (\<lambda>hr. hr\<lparr>x := x hr - vx\<rparr>) (heartPickups e)\<rparr>)"

subsection \<open>Collisions with obstacles (lines 715-740)\<close>

text \<open>
  One iteration of \<^verbatim>\<open>for (const o of g.obstacles)\<close>. The result is whether the iteration
  executed \<^verbatim>\<open>return\<close> (game over), the engine and the obstacle as the iteration leaves
  them. The box \<^verbatim>\<open>pr\<close> is computed before the loop from fields of the player that the loop
  does not write, so computing it in each iteration gives the same box.
\<close>

definition score_obstacle :: "engine \<Rightarrow> Obstacle \<Rightarrow> bool \<times> engine \<times> Obstacle" where
  "score_obstacle e ob =
     (if \<not> scored ob \<and> \<not> hit ob \<and> x (player e) > x ob + w ob
      then (False, emit (OnScore (score e + 1)) (e\<lparr>score := score e + 1\<rparr>), ob\<lparr>scored := True\<rparr>)
      else (False, e, ob))"

definition obstacle_step :: "engine \<Rightarrow> Obstacle \<Rightarrow> bool \<times> engine \<times> Obstacle" where
  "obstacle_step e ob =
     (let p = player e;
          pr = shrunk p;
          rr = shrunk ob
      in if collide pr rr \<and> hitCooldown p \<le> 0 \<and> \<not> hit ob
         then let ob1 = ob\<lparr>hit := True, remove := True\<rparr>;
                  hs = clamp (hearts e - 1) 0 6;
                  e1 = emit (OnHeartsChange hs) (e\<lparr>hearts := hs\<rparr>);
                  e2 = emit (PlaySfx SfxHit)
                         (e1\<lparr>player := (player e1)\<lparr>hitCooldown := HIT_BUFFER e1\<rparr>\<rparr>)
              in if hearts e2 \<le> 0
                 then (True, emit (OnGameOver (score e2)) (e2\<lparr>state := GAMEOVER\<rparr>), ob1)
                 else score_obstacle e2 ob1
         else score_obstacle e ob)"

fun obstacle_loop :: "engine \<Rightarrow> Obstacle list \<Rightarrow> bool \<times> engine \<times> Obstacle list" where
  "obstacle_loop e [] = (False, e, [])"
| "obstacle_loop e (ob # obs) =
     (case obstacle_step e ob of
        (True, e1, ob1) \<Rightarrow> (True, e1, ob1 # obs)
      | (False, e1, ob1) \<Rightarrow>
          (case obstacle_loop e1 obs of (ret, e2, obs1) \<Rightarrow> (ret, e2, ob1 # obs1)))"

definition obstacle_collisions :: "engine \<Rightarrow> bool \<times> engine" where
  "obstacle_collisions e =
     (case obstacle_loop e (obstacles e) of (ret, e1, obs1) \<Rightarrow> (ret, e1\<lparr>obstacles := obs1\<rparr>))"

subsection \<open>Collisions with heart pickups (lines 742-758)\<close>

definition heart_step :: "engine \<Rightarrow> HeartPickup \<Rightarrow> engine \<times> HeartPickup" where
  "heart_step e hr =
     (if taken hr then (e, hr)
      else let pr = shrunk (player e);
               rr = shrunk hr
           in if collide pr rr
              then let hr1 = hr\<lparr>taken := True\<rparr>
                   in if hearts e < 6
                      then (emit (PlaySfx SfxPickup)
                              (emit (OnHeartsChange (hearts e + 1)) (e\<lparr>hearts := hearts e + 1\<rparr>)),
                            hr1)
                      else (e, hr1)
              else (e, hr))"

fun heart_loop :: "engine \<Rightarrow> HeartPickup list \<Rightarrow> engine \<times> HeartPickup list" where
  "heart_loop e [] = (e, [])"
| "heart_loop e (hr # hrs) =
     (case heart_step e hr of
        (e1, hr1) \<Rightarrow> (case heart_loop e1 hrs of (e2, hrs1) \<Rightarrow> (e2, hr1 # hrs1)))"

definition heart_collisions :: "engine \<Rightarrow> engine" where
  "heart_collisions e =
     (case heart_loop e (heartPickups e) of (e1, hrs1) \<Rightarrow> e1\<lparr>heartPickups := hrs1\<rparr>)"

subsection \<open>Cleanup (lines 760-766) and the whole step\<close>

definition cleanup :: "engine \<Rightarrow> engine" where
  "cleanup e =
     e\<lparr>obstacles := filter (\<lambda>ob. \<not> remove ob \<and> x ob + w ob > - 40) (obstacles e),
       heartPickups := filter (\<lambda>hr. \<not> taken hr \<and> x hr + w hr > - 40) (heartPickups e)\<rparr>"

text \<open>Lines 620-705: everything between the state test and the collision loops.\<close>

definition before_collisions :: "real \<Rightarrow> rolls \<Rightarrow> engine \<Rightarrow> engine" where
  "before_collisions dt rnd e =
     move_world dt (spawn_heart dt rnd (spawn_obstacle dt rnd
       (player_physics dt (ramp_difficulty dt e))))"

definition update :: "real \<Rightarrow> rolls \<Rightarrow> engine \<Rightarrow> engine" where
  "update dt rnd e =
     (let e1 = advance_world dt e
      in if state e1 \<noteq> PLAYING then e1
         else case obstacle_collisions (before_collisions dt rnd e1) of
                (ret, e2) \<Rightarrow> if ret then e2 else cleanup (heart_collisions e2))"

section \<open>The frame callback: \<^verbatim>\<open>tick\<close> (lines 573-595)\<close>

text \<open>
  \<^verbatim>\<open>timestampRef\<close> and \<^verbatim>\<open>accumRef\<close> are the two cells of the stepper. A call of \<^verbatim>\<open>tick\<close>
  returns, besides the new cells and engine, the list of the calls it made to \<^verbatim>\<open>update\<close>
  and \<^verbatim>\<open>draw\<close>, in order. \<^verbatim>\<open>draw\<close> (lines 769-859) only reads the engine.
\<close>

record stepper =
  timestamp :: real
  accum :: real

datatype call = CallUpdate real | CallDraw

definition fixed_step :: real where
  "fixed_step = 1 / 60"

text \<open>
  The loop \<^verbatim>\<open>while (accumRef.current >= step) { update(step); accumRef.current -= step; }\<close>.
  The \<open>k\<close>-th call of \<^verbatim>\<open>update\<close> in a frame draws the random numbers \<open>rnds k\<close>.
\<close>

function drain :: "(nat \<Rightarrow> rolls) \<Rightarrow> nat \<Rightarrow> real \<Rightarrow> engine \<Rightarrow> call list \<Rightarrow> real \<times> engine \<times> call list" where
  "drain rnds k acc e calls =
     (if acc \<ge> fixed_step
      then drain rnds (k + 1) (acc - fixed_step) (update fixed_step (rnds k) e)
             (calls @ [CallUpdate fixed_step])
      else (acc, e, calls))"
  by pat_completeness auto
termination
proof (relation "measure (\<lambda>(rnds, k, acc, e, calls). nat \<lfloor>acc * 60\<rfloor>)")
  show "wf (measure (\<lambda>(rnds, k, acc, e, calls). nat \<lfloor>acc * 60\<rfloor>))"
    by simp
next
  fix rnds :: "nat \<Rightarrow> rolls" and k :: nat and acc :: real and e :: engine and calls :: "call list"
  assume a: "fixed_step \<le> acc"
  have "\<lfloor>(acc - fixed_step) * 60\<rfloor> = \<lfloor>acc * 60\<rfloor> - 1"
    by (simp add: fixed_step_def algebra_simps)
  moreover have "1 \<le> \<lfloor>acc * 60\<rfloor>"
    using a by (simp add: fixed_step_def le_floor_iff)
  ultimately show "((rnds, k + 1, acc - fixed_step, update fixed_step (rnds k) e,
                     calls @ [CallUpdate fixed_step]),
                    (rnds, k, acc, e, calls))
                   \<in> measure (\<lambda>(rnds, k, acc, e, calls). nat \<lfloor>acc * 60\<rfloor>)"
    by simp
qed

declare drain.simps [simp del]

text \<open>
  \<open>ready\<close> says that \<^verbatim>\<open>gameRef.current\<close> and \<^verbatim>\<open>ctxRef.current\<close> are both set; when one is
  missing the callback only schedules itself again. \<open>now\<close> is the value of \<^verbatim>\<open>now()\<close>.
\<close>

definition tick :: "real \<Rightarrow> (nat \<Rightarrow> rolls) \<Rightarrow> bool \<Rightarrow> stepper \<times> engine \<Rightarrow> (stepper \<times> engine) \<times> call list" where
  "tick now rnds ready se =
     (case se of (st, e) \<Rightarrow>
        if \<not> ready then ((st, e), [])
        else let dt0 = now - timestamp st;
                 st1 = st\<lparr>timestamp := now\<rparr>;
                 dt = min dt0 0.05;
                 st2 = st1\<lparr>accum := accum st1 + dt\<rparr>
             in case drain rnds 0 (accum st2) e [] of
                  (acc, e1, calls) \<Rightarrow> ((st2\<lparr>accum := acc\<rparr>, e1), calls @ [CallDraw]))"

section \<open>Runs of the engine\<close>

text \<open>
  Between two frames the host calls the transitions in any order; the input handlers
  (lines 437-467) choose among them by the current state. A run is a list of such calls,
  each \<^verbatim>\<open>update\<close> with the fixed step of \<^verbatim>\<open>tick\<close>.
\<close>

datatype input =
    Update rolls
  | StartGame
  | PauseGame
  | ResumeGame
  | DoJump
  | HandleResize real real bool "Firefly list"

fun apply_input :: "input \<Rightarrow> engine \<Rightarrow> engine" where
  "apply_input (Update rnd) e = update fixed_step rnd e"
| "apply_input StartGame e = startGame e"
| "apply_input PauseGame e = pauseGame e"
| "apply_input ResumeGame e = resumeGame e"
| "apply_input DoJump e = doJump e"
| "apply_input (HandleResize cw ch got_ctx flies) e = handleResize cw ch got_ctx flies e"

definition run :: "input list \<Rightarrow> engine \<Rightarrow> engine" where
  "run ins e = fold apply_input ins e"

section \<open>The part of the engine the collision loops leave alone\<close>

text \<open>
  The two collision loops and the cleanup write the state tag, the hit cooldown of the
  player, the two entity lists, score, hearts and the trace. \<open>untouched\<close> blanks these
  fields: two engines with the same \<open>untouched\<close> agree on every other field.
\<close>

definition untouched :: "engine \<Rightarrow> engine" where
  "untouched e =
     e\<lparr>state := TITLE, player := (player e)\<lparr>hitCooldown := 0\<rparr>, obstacles := [],
       heartPickups := [], score := 0, hearts := 0, events := []\<rparr>"

section \<open>Invariants\<close>

text \<open>
  What holds of the hearts counter from \<^verbatim>\<open>startGame\<close> on: it lies between 0 and 6, and it
  is 0 exactly in the state \<open>GAMEOVER\<close>.
\<close>

definition hearts_ok :: "engine \<Rightarrow> bool" where
  "hearts_ok e \<longleftrightarrow>
     hearts e \<le> 6 \<and> (state e = GAMEOVER \<longrightarrow> hearts e = 0) \<and>
     (state e \<noteq> GAMEOVER \<longrightarrow> 0 < hearts e)"

text \<open>
  What holds of the obstacles from \<^verbatim>\<open>startGame\<close> on, for a viewport whose height is not
  negative: no obstacle is both \<open>hit\<close> and \<open>scored\<close>, and a scored obstacle lies wholly
  left of the left edge \<open>px\<close> of the player. The widths, the unit, the difficulty clock
  and the scroll speed are not negative.
\<close>

definition ob_ok :: "real \<Rightarrow> Obstacle \<Rightarrow> bool" where
  "ob_ok px ob \<longleftrightarrow> 0 \<le> w ob \<and> \<not> (hit ob \<and> scored ob) \<and> (scored ob \<longrightarrow> x ob + w ob < px)"

definition scales_ok :: "engine \<Rightarrow> bool" where
  "scales_ok e \<longleftrightarrow>
     0 \<le> u e \<and> 0 \<le> size_h e \<and> 0 \<le> difficultySeconds e \<and> 0 \<le> speed e \<and>
     0 \<le> w (player e)"

definition flags_ok :: "engine \<Rightarrow> bool" where
  "flags_ok e \<longleftrightarrow> scales_ok e \<and> (\<forall>ob \<in> set (obstacles e). ob_ok (x (player e)) ob)"

text \<open>A resize reports a client height that is not negative.\<close>

definition resize_ok :: "input \<Rightarrow> bool" where
  "resize_ok i = (case i of HandleResize cw ch got_ctx flies \<Rightarrow> 0 \<le> ch | _ \<Rightarrow> True)"

section \<open>Sample states\<close>

text \<open>
  The game record as \<^verbatim>\<open>init\<close> builds it (lines 331-365) for a viewport of 960 by 540, with
  one firefly and a backdrop 1920 wide; and the same engine after \<^verbatim>\<open>startGame\<close>.
\<close>

definition title_engine :: engine where
  "title_engine =
     \<lparr>state = TITLE, t = 0, bgOffset = 0, speed = 350, difficultySeconds = 0, u = 1,
      G = 2600, JUMP_V = - 900, HIT_BUFFER = 0.6, groundY = 476,
      player = \<lparr>x = 140, y = 412, w = 48, h = 64, vy = 0, onGround = True,
                 jumpsRemaining = 2, hitCooldown = 0\<rparr>,
      obstacles = [], heartPickups = [], obsTimer = 0, obsInterval = 2.1,
      lastObstacleX = 960, minGapPx = 280, heartTimer = 0, heartInterval = 5.5,
      score = 0, hearts = 3,
      fireflies = [\<lparr>x = 100, y = 50, r = 2, phase = 0, twinkle = 1\<rparr>],
      size_w = 960, size_h = 540, backdrop_w = Some 1920, events = []\<rparr>"

definition playing_engine :: engine where
  "playing_engine = startGame title_engine"

definition no_rolls :: rolls where
  "no_rolls = \<lparr>roll_interval = 0.5, roll_type = 0.5, roll_heart = 0.5,
               roll_heart_interval = 0.5, roll_heart_x = 0.5, roll_heart_y = 0.5\<rparr>"

text \<open>A small mushroom standing at \<open>ox\<close> on the ground line of the sample viewport.\<close>

definition small_mushroom :: "real \<Rightarrow> Obstacle" where
  "small_mushroom ox =
     \<lparr>x = ox, y = 424, w = 52, h = 52, otype = SMALL, hit = False, scored = False,
      remove = False\<rparr>"

text \<open>A heart pickup at \<open>hx\<close>, at the height of the standing player.\<close>

definition heart_at :: "real \<Rightarrow> HeartPickup" where
  "heart_at hx = \<lparr>x = hx, y = 420, w = 30, h = 28, taken = False\<rparr>"

text \<open>
  A session on its last heart, the player standing on the ground with a small mushroom
  about to reach it.
\<close>

definition last_heart_engine :: engine where
  "last_heart_engine = playing_engine\<lparr>hearts := 1, obstacles := [small_mushroom 150]\<rparr>"

text \<open>Two mushrooms overlapping the standing player at once, with all three hearts left.\<close>

definition two_mushrooms_engine :: engine where
  "two_mushrooms_engine = playing_engine\<lparr>obstacles := [small_mushroom 150, small_mushroom 160]\<rparr>"

text \<open>A player hit a moment ago (cooldown armed), with a mushroom overlapping; and the same
  engine paused.\<close>

definition hurt_engine :: engine where
  "hurt_engine =
     playing_engine\<lparr>player := (player playing_engine)\<lparr>hitCooldown := 0.6\<rparr>,
                    hearts := 2, obstacles := [small_mushroom 150]\<rparr>"

definition hurt_paused_engine :: engine where
  "hurt_paused_engine = pauseGame hurt_engine"

text \<open>A player that has used both jumps and is about to touch the ground again.\<close>

definition landing_engine :: engine where
  "landing_engine =
     playing_engine\<lparr>player := (player playing_engine)\<lparr>y := 411, vy := 100, onGround := False,
                                                     jumpsRemaining := 0\<rparr>\<rparr>"

text \<open>A session at the heart cap with a pickup right in front of the standing player.\<close>

definition full_hearts_engine :: engine where
  "full_hearts_engine = playing_engine\<lparr>hearts := 6, heartPickups := [heart_at 150]\<rparr>"

text \<open>
  The player high in the air above a mushroom whose right edge (at 189) is still ahead of
  the right edge of the player (at 188) and one step later behind it.
\<close>

definition jumping_engine :: engine where
  "jumping_engine =
     playing_engine\<lparr>player := (player playing_engine)\<lparr>y := 100, onGround := False,
                                                     jumpsRemaining := 0\<rparr>,
                    obstacles := [small_mushroom 137]\<rparr>"

text \<open>One mushroom overlapping the standing player and one already behind it.\<close>

definition mixed_engine :: engine where
  "mixed_engine = playing_engine\<lparr>obstacles := [small_mushroom 150, small_mushroom 50]\<rparr>"

text \<open>
  The game record for a viewport of 3840 by 2160 (unit 4, minimum gap 1120) shortly after
  \<^verbatim>\<open>startGame\<close>: the spawn timer is about to reach the first interval of 2.1 s, and the
  tracker, which started at the right edge, has come down by about 740 only.
\<close>

definition crowded_engine :: engine where
  "crowded_engine =
     \<lparr>state = PLAYING, t = 2.09, bgOffset = 256, speed = 358.36, difficultySeconds = 2.09,
      u = 4, G = 10400, JUMP_V = - 3600, HIT_BUFFER = 0.6, groundY = 1904,
      player = \<lparr>x = 140, y = 1648, w = 192, h = 256, vy = 0, onGround = True,
                 jumpsRemaining = 2, hitCooldown = 0\<rparr>,
      obstacles = [], heartPickups = [], obsTimer = 2.09, obsInterval = 2.1,
      lastObstacleX = 3100, minGapPx = 1120, heartTimer = 4.29, heartInterval = 5.5,
      score = 0, hearts = 3, fireflies = [],
      size_w = 3840, size_h = 2160, backdrop_w = Some 1920, events = []\<rparr>"

text \<open>
  A session on its last heart with a mushroom already behind the player, first in the
  list, and one overlapping the standing player after it.
\<close>

definition fatal_engine :: engine where
  "fatal_engine =
     playing_engine\<lparr>hearts := 1, obstacles := [small_mushroom 50, small_mushroom 150]\<rparr>"

section \<open>Frame of the collision loops\<close>

lemma obstacle_step_untouched:
  "obstacle_step e ob = (ret, e1, ob1) \<Longrightarrow> untouched e1 = untouched e"
  by (auto simp: obstacle_step_def score_obstacle_def emit_def Let_def untouched_def split: if_splits)

lemma obstacle_loop_untouched:
  "obstacle_loop e obs = (ret, e1, obs1) \<Longrightarrow> untouched e1 = untouched e"
proof (induction obs arbitrary: e ret e1 obs1)
  case Nil
  then show ?case by simp
next
  case (Cons ob obs)
  obtain r1 e2 ob2 where s: "obstacle_step e ob = (r1, e2, ob2)"
    by (cases "obstacle_step e ob") auto
  note f = obstacle_step_untouched [OF s]
  show ?case
  proof (cases r1)
    case True
    with Cons.prems s have "e1 = e2" by simp
    with f show ?thesis by simp
  next
    case False
    obtain r3 e3 obs3 where l: "obstacle_loop e2 obs = (r3, e3, obs3)"
      by (cases "obstacle_loop e2 obs") auto
    with Cons.prems s False have "e1 = e3" by simp
    with Cons.IH [OF l] f show ?thesis by simp
  qed
qed

lemma obstacle_collisions_untouched:
  "obstacle_collisions e = (ret, e1) \<Longrightarrow> untouched e1 = untouched e"
  by (auto simp: obstacle_collisions_def untouched_def split: prod.splits
      dest!: obstacle_loop_untouched)

lemma heart_step_untouched:
  "heart_step e hr = (e1, hr1) \<Longrightarrow> untouched e1 = untouched e"
  by (auto simp: heart_step_def emit_def Let_def untouched_def split: if_splits)

lemma heart_loop_untouched:
  "heart_loop e hrs = (e1, hrs1) \<Longrightarrow> untouched e1 = untouched e"
proof (induction hrs arbitrary: e e1 hrs1)
  case Nil
  then show ?case by simp
next
  case (Cons hr hrs)
  then show ?case
    by (auto split: prod.splits dest!: heart_step_untouched)
qed

lemma heart_collisions_untouched: "untouched (heart_collisions e) = untouched e"
  by (auto simp: heart_collisions_def untouched_def split: prod.splits
      dest!: heart_loop_untouched)

lemma cleanup_untouched: "untouched (cleanup e) = untouched e"
  by (simp add: cleanup_def untouched_def)

section \<open>Hearts, score and state through a step\<close>

lemma obstacle_step_lives:
  "obstacle_step e ob = (ret, e1, ob1) \<Longrightarrow> 0 < hearts e \<Longrightarrow>
   (ret \<longrightarrow> state e1 = GAMEOVER \<and> hearts e1 = 0) \<and>
   (\<not> ret \<longrightarrow> state e1 = state e \<and> 0 < hearts e1) \<and>
   hearts e1 \<le> hearts e"
  by (auto simp: obstacle_step_def score_obstacle_def emit_def Let_def clamp_def
      split: if_splits)

lemma obstacle_loop_lives:
  "obstacle_loop e obs = (ret, e1, obs1) \<Longrightarrow> 0 < hearts e \<Longrightarrow>
   (ret \<longrightarrow> state e1 = GAMEOVER \<and> hearts e1 = 0) \<and>
   (\<not> ret \<longrightarrow> state e1 = state e \<and> 0 < hearts e1) \<and>
   hearts e1 \<le> hearts e"
proof (induction obs arbitrary: e ret e1 obs1)
  case Nil
  then show ?case by simp
next
  case (Cons ob obs)
  obtain r1 e2 ob2 where s: "obstacle_step e ob = (r1, e2, ob2)"
    by (cases "obstacle_step e ob") auto
  note f = obstacle_step_lives [OF s Cons.prems(2)]
  show ?case
  proof (cases r1)
    case True
    with Cons.prems s have "e1 = e2" "ret" by simp_all
    with f True show ?thesis by simp
  next
    case False
    obtain r3 e3 obs3 where l: "obstacle_loop e2 obs = (r3, e3, obs3)"
      by (cases "obstacle_loop e2 obs") auto
    with Cons.prems s False have eq: "e1 = e3" "ret = r3" by simp_all
    from f False have "0 < hearts e2" by simp
    from Cons.IH [OF l this] f False eq show ?thesis by auto
  qed
qed

lemma heart_step_lives:
  "heart_step e hr = (e1, hr1) \<Longrightarrow>
   state e1 = state e \<and> score e1 = score e \<and> hearts e \<le> hearts e1 \<and>
   hearts e1 \<le> max 6 (hearts e)"
  by (auto simp: heart_step_def emit_def Let_def split: if_splits)

lemma heart_loop_lives:
  "heart_loop e hrs = (e1, hrs1) \<Longrightarrow>
   state e1 = state e \<and> score e1 = score e \<and> hearts e \<le> hearts e1 \<and>
   hearts e1 \<le> max 6 (hearts e)"
proof (induction hrs arbitrary: e e1 hrs1)
  case Nil
  then show ?case by simp
next
  case (Cons hr hrs)
  obtain e2 hr2 where s: "heart_step e hr = (e2, hr2)"
    by (cases "heart_step e hr") auto
  obtain e3 hrs3 where l: "heart_loop e2 hrs = (e3, hrs3)"
    by (cases "heart_loop e2 hrs") auto
  from Cons.prems s l have "e1 = e3" by simp
  with heart_step_lives [OF s] Cons.IH [OF l] show ?case by auto
qed

lemma heart_collisions_lives:
  "state (heart_collisions e) = state e \<and> score (heart_collisions e) = score e \<and>
   hearts e \<le> hearts (heart_collisions e) \<and> hearts (heart_collisions e) \<le> max 6 (hearts e)"
proof -
  obtain e1 hrs1 where l: "heart_loop e (heartPickups e) = (e1, hrs1)"
    by (cases "heart_loop e (heartPickups e)") auto
  from heart_loop_lives [OF l] l show ?thesis
    by (simp add: heart_collisions_def)
qed

lemma obstacle_collisions_lives:
  assumes "obstacle_collisions e = (ret, e1)" and "0 < hearts e"
  shows "(ret \<longrightarrow> state e1 = GAMEOVER \<and> hearts e1 = 0) \<and>
         (\<not> ret \<longrightarrow> state e1 = state e \<and> 0 < hearts e1) \<and> hearts e1 \<le> hearts e"
proof -
  obtain r2 e2 obs2 where l: "obstacle_loop e (obstacles e) = (r2, e2, obs2)"
    by (cases "obstacle_loop e (obstacles e)") auto
  with assms(1) have "ret = r2" "e1 = e2\<lparr>obstacles := obs2\<rparr>"
    by (simp_all add: obstacle_collisions_def)
  with obstacle_loop_lives [OF l assms(2)] show ?thesis by simp
qed

lemma ramp_difficulty_lives:
  "state (ramp_difficulty dt e) = state e \<and> hearts (ramp_difficulty dt e) = hearts e \<and>
   score (ramp_difficulty dt e) = score e \<and> events (ramp_difficulty dt e) = events e"
  by (simp add: ramp_difficulty_def Let_def)

lemma player_physics_lives:
  "state (player_physics dt e) = state e \<and> hearts (player_physics dt e) = hearts e \<and>
   score (player_physics dt e) = score e \<and> events (player_physics dt e) = events e"
  by (simp add: player_physics_def Let_def)

lemma spawn_obstacle_lives:
  "state (spawn_obstacle dt rnd e) = state e \<and> hearts (spawn_obstacle dt rnd e) = hearts e \<and>
   score (spawn_obstacle dt rnd e) = score e \<and> events (spawn_obstacle dt rnd e) = events e"
  by (simp add: spawn_obstacle_def Let_def)

lemma spawn_heart_lives:
  "state (spawn_heart dt rnd e) = state e \<and> hearts (spawn_heart dt rnd e) = hearts e \<and>
   score (spawn_heart dt rnd e) = score e \<and> events (spawn_heart dt rnd e) = events e"
  by (simp add: spawn_heart_def Let_def)

lemma move_world_lives:
  "state (move_world dt e) = state e \<and> hearts (move_world dt e) = hearts e \<and>
   score (move_world dt e) = score e \<and> events (move_world dt e) = events e"
  by (simp add: move_world_def Let_def)

lemma before_collisions_lives:
  "state (before_collisions dt rnd e) = state e \<and>
   hearts (before_collisions dt rnd e) = hearts e \<and>
   score (before_collisions dt rnd e) = score e \<and>
   events (before_collisions dt rnd e) = events e"
  by (simp add: before_collisions_def move_world_lives spawn_heart_lives spawn_obstacle_lives
      player_physics_lives ramp_difficulty_lives)

lemma advance_world_lives:
  "state (advance_world dt e) = state e \<and> hearts (advance_world dt e) = hearts e \<and>
   score (advance_world dt e) = score e \<and> events (advance_world dt e) = events e"
  by (simp add: advance_world_def Let_def)

lemma cleanup_lives:
  "state (cleanup e) = state e \<and> hearts (cleanup e) = hearts e \<and>
   score (cleanup e) = score e \<and> events (cleanup e) = events e"
  by (simp add: cleanup_def)

lemma update_lives:
  assumes "state e = PLAYING" and "0 < hearts e"
  shows "(state (update dt rnd e) = GAMEOVER \<and> hearts (update dt rnd e) = 0) \<or>
         (state (update dt rnd e) = PLAYING \<and> 0 < hearts (update dt rnd e) \<and>
          hearts (update dt rnd e) \<le> max 6 (hearts e))"
proof -
  let ?b = "before_collisions dt rnd (advance_world dt e)"
  obtain ret e2 where c: "obstacle_collisions ?b = (ret, e2)"
    by (cases "obstacle_collisions ?b") auto
  have b: "state ?b = PLAYING" "0 < hearts ?b" "hearts ?b = hearts e"
    using assms by (simp_all add: before_collisions_lives advance_world_lives)
  note o = obstacle_collisions_lives [OF c b(2)]
  have u: "update dt rnd e = (if ret then e2 else cleanup (heart_collisions e2))"
    using assms c by (simp add: update_def Let_def advance_world_lives)
  show ?thesis
  proof (cases ret)
    case True
    with o u show ?thesis by simp
  next
    case False
    with o b have "state e2 = PLAYING" "0 < hearts e2" "hearts e2 \<le> hearts e" by simp_all
    with heart_collisions_lives [of e2] u False show ?thesis
      by (auto simp: cleanup_lives)
  qed
qed

section \<open>The hit cooldown in the obstacle loop\<close>

lemma obstacle_step_cooling:
  "obstacle_step e ob = (ret, e1, ob1) \<Longrightarrow> 0 < hitCooldown (player e) \<Longrightarrow>
   \<not> ret \<and> hearts e1 = hearts e \<and> state e1 = state e \<and> player e1 = player e \<and>
   hit ob1 = hit ob \<and>
   count_list (events e1) (PlaySfx SfxHit) = count_list (events e) (PlaySfx SfxHit)"
  by (auto simp: obstacle_step_def score_obstacle_def emit_def Let_def split: if_splits)

lemma obstacle_loop_cooling:
  "obstacle_loop e obs = (ret, e1, obs1) \<Longrightarrow> 0 < hitCooldown (player e) \<Longrightarrow>
   \<not> ret \<and> hearts e1 = hearts e \<and> state e1 = state e \<and> player e1 = player e \<and>
   map hit obs1 = map hit obs \<and>
   count_list (events e1) (PlaySfx SfxHit) = count_list (events e) (PlaySfx SfxHit)"
proof (induction obs arbitrary: e ret e1 obs1)
  case Nil
  then show ?case by simp
next
  case (Cons ob obs)
  obtain r1 e2 ob2 where s: "obstacle_step e ob = (r1, e2, ob2)"
    by (cases "obstacle_step e ob") auto
  note f = obstacle_step_cooling [OF s Cons.prems(2)]
  obtain r3 e3 obs3 where l: "obstacle_loop e2 obs = (r3, e3, obs3)"
    by (cases "obstacle_loop e2 obs") auto
  from f Cons.prems(2) have "0 < hitCooldown (player e2)" by simp
  note i = Cons.IH [OF l this]
  from Cons.prems(1) s l f have "ret = r3" "e1 = e3" "obs1 = ob2 # obs3" by simp_all
  with f i show ?case by simp
qed

lemma length_filter_hit_cong:
  "map hit obs1 = map hit obs \<Longrightarrow> length (filter hit obs1) = length (filter hit obs)"
  by (induction obs1 obs rule: list_induct2') auto

lemma obstacle_step_one_hit:
  "obstacle_step e ob = (ret, e1, ob1) \<Longrightarrow> 0 < HIT_BUFFER e \<Longrightarrow>
   (hit ob1 = hit ob \<and> hearts e1 = hearts e \<and> player e1 = player e \<and>
    state e1 = state e \<and> \<not> ret \<and>
    count_list (events e1) (PlaySfx SfxHit) = count_list (events e) (PlaySfx SfxHit)) \<or>
   (hit ob1 \<and> \<not> hit ob \<and> hearts e1 = clamp (hearts e - 1) 0 6 \<and>
    hitCooldown (player e) \<le> 0 \<and>
    hitCooldown (player e1) = HIT_BUFFER e \<and> (\<not> ret \<longrightarrow> state e1 = state e) \<and>
    count_list (events e1) (PlaySfx SfxHit) = count_list (events e) (PlaySfx SfxHit) + 1)"
  by (auto simp: obstacle_step_def score_obstacle_def emit_def Let_def split: if_splits)

lemma obstacle_loop_one_hit:
  "obstacle_loop e obs = (ret, e1, obs1) \<Longrightarrow> 0 < HIT_BUFFER e \<Longrightarrow>
   (map hit obs1 = map hit obs \<and> hearts e1 = hearts e \<and> player e1 = player e \<and>
    state e1 = state e \<and> \<not> ret \<and>
    count_list (events e1) (PlaySfx SfxHit) = count_list (events e) (PlaySfx SfxHit)) \<or>
   (length (filter hit obs1) = length (filter hit obs) + 1 \<and>
    hearts e1 = clamp (hearts e - 1) 0 6 \<and> hitCooldown (player e) \<le> 0 \<and>
    hitCooldown (player e1) = HIT_BUFFER e \<and> (\<not> ret \<longrightarrow> state e1 = state e) \<and>
    count_list (events e1) (PlaySfx SfxHit) = count_list (events e) (PlaySfx SfxHit) + 1)"
proof (induction obs arbitrary: e ret e1 obs1)
  case Nil
  then show ?case by simp
next
  case (Cons ob obs)
  obtain r1 e2 ob2 where s: "obstacle_step e ob = (r1, e2, ob2)"
    by (cases "obstacle_step e ob") auto
  have hb: "HIT_BUFFER e2 = HIT_BUFFER e"
    using obstacle_step_untouched [OF s, THEN arg_cong, of HIT_BUFFER]
    by (simp add: untouched_def)
  note f = obstacle_step_one_hit [OF s Cons.prems(2)]
  show ?case
  proof (cases r1)
    case True
    with Cons.prems(1) s have "ret" "e1 = e2" "obs1 = ob2 # obs" by simp_all
    with f True show ?thesis by auto
  next
    case False
    obtain r3 e3 obs3 where l: "obstacle_loop e2 obs = (r3, e3, obs3)"
      by (cases "obstacle_loop e2 obs") auto
    from Cons.prems(1) s l False have eq: "ret = r3" "e1 = e3" "obs1 = ob2 # obs3"
      by simp_all
    from f show ?thesis
    proof
      assume a: "hit ob2 = hit ob \<and> hearts e2 = hearts e \<and> player e2 = player e \<and>
        state e2 = state e \<and> \<not> r1 \<and>
        count_list (events e2) (PlaySfx SfxHit) = count_list (events e) (PlaySfx SfxHit)"
      from Cons.IH [OF l] hb Cons.prems(2) a eq show ?thesis by auto
    next
      assume a: "hit ob2 \<and> \<not> hit ob \<and> hearts e2 = clamp (hearts e - 1) 0 6 \<and>
        hitCooldown (player e) \<le> 0 \<and>
        hitCooldown (player e2) = HIT_BUFFER e \<and> (\<not> r1 \<longrightarrow> state e2 = state e) \<and>
        count_list (events e2) (PlaySfx SfxHit) = count_list (events e) (PlaySfx SfxHit) + 1"
      with Cons.prems(2) have "0 < hitCooldown (player e2)" by simp
      from obstacle_loop_cooling [OF l this] a eq False show ?thesis
        by (auto dest: length_filter_hit_cong)
    qed
  qed
qed

section \<open>Player and cooldown constant before the collisions\<close>

lemma advance_world_keeps:
  "player (advance_world dt e) = player e \<and> HIT_BUFFER (advance_world dt e) = HIT_BUFFER e \<and>
   G (advance_world dt e) = G e \<and> groundY (advance_world dt e) = groundY e"
  by (simp add: advance_world_def Let_def)

lemma ramp_difficulty_keeps:
  "player (ramp_difficulty dt e) = player e \<and>
   HIT_BUFFER (ramp_difficulty dt e) = HIT_BUFFER e \<and>
   G (ramp_difficulty dt e) = G e \<and> groundY (ramp_difficulty dt e) = groundY e"
  by (simp add: ramp_difficulty_def Let_def)

lemma player_physics_keeps: "HIT_BUFFER (player_physics dt e) = HIT_BUFFER e"
  by (simp add: player_physics_def Let_def)

lemma player_physics_player:
  "G e1 = G e \<Longrightarrow> groundY e1 = groundY e \<Longrightarrow> player e1 = player e \<Longrightarrow>
   player (player_physics dt e1) = player (player_physics dt e)"
  by (simp add: player_physics_def Let_def)

lemma spawn_obstacle_keeps:
  "player (spawn_obstacle dt rnd e) = player e \<and>
   HIT_BUFFER (spawn_obstacle dt rnd e) = HIT_BUFFER e"
  by (simp add: spawn_obstacle_def Let_def)

lemma spawn_heart_keeps:
  "player (spawn_heart dt rnd e) = player e \<and>
   HIT_BUFFER (spawn_heart dt rnd e) = HIT_BUFFER e"
  by (simp add: spawn_heart_def Let_def)

lemma move_world_keeps:
  "player (move_world dt e) = player e \<and> HIT_BUFFER (move_world dt e) = HIT_BUFFER e"
  by (simp add: move_world_def Let_def)

lemma before_collisions_keeps:
  "player (before_collisions dt rnd (advance_world dt e)) = player (player_physics dt e) \<and>
   HIT_BUFFER (before_collisions dt rnd (advance_world dt e)) = HIT_BUFFER e"
  by (simp add: before_collisions_def move_world_keeps spawn_heart_keeps spawn_obstacle_keeps
      player_physics_keeps ramp_difficulty_keeps advance_world_keeps
      player_physics_player [of "ramp_difficulty dt (advance_world dt e)" e])

lemma player_physics_cooldown:
  "hitCooldown (player (player_physics dt e)) = max 0 (hitCooldown (player e) - dt)"
  by (simp add: player_physics_def Let_def)

lemma heart_step_keeps:
  "heart_step e hr = (e1, hr1) \<Longrightarrow>
   player e1 = player e \<and>
   count_list (events e1) (PlaySfx SfxHit) = count_list (events e) (PlaySfx SfxHit)"
  by (auto simp: heart_step_def emit_def Let_def split: if_splits)

lemma heart_loop_keeps:
  "heart_loop e hrs = (e1, hrs1) \<Longrightarrow>
   player e1 = player e \<and>
   count_list (events e1) (PlaySfx SfxHit) = count_list (events e) (PlaySfx SfxHit)"
proof (induction hrs arbitrary: e e1 hrs1)
  case Nil
  then show ?case by simp
next
  case (Cons hr hrs)
  obtain e2 hr2 where s: "heart_step e hr = (e2, hr2)"
    by (cases "heart_step e hr") auto
  obtain e3 hrs3 where l: "heart_loop e2 hrs = (e3, hrs3)"
    by (cases "heart_loop e2 hrs") auto
  from Cons.prems s l have "e1 = e3" by simp
  with heart_step_keeps [OF s] Cons.IH [OF l] show ?case by simp
qed

lemma heart_collisions_keeps:
  "player (heart_collisions e) = player e \<and>
   count_list (events (heart_collisions e)) (PlaySfx SfxHit) =
     count_list (events e) (PlaySfx SfxHit)"
proof -
  obtain e1 hrs1 where l: "heart_loop e (heartPickups e) = (e1, hrs1)"
    by (cases "heart_loop e (heartPickups e)") auto
  from heart_loop_keeps [OF l] l show ?thesis
    by (simp add: heart_collisions_def)
qed

lemma cleanup_keeps: "player (cleanup e) = player e"
  by (simp add: cleanup_def)

lemma obstacle_collisions_one_hit:
  assumes "obstacle_collisions e = (ret, e1)" and "0 < HIT_BUFFER e"
  shows "(map hit (obstacles e1) = map hit (obstacles e) \<and> hearts e1 = hearts e \<and>
          player e1 = player e \<and> state e1 = state e \<and> \<not> ret \<and>
          count_list (events e1) (PlaySfx SfxHit) = count_list (events e) (PlaySfx SfxHit)) \<or>
         (length (filter hit (obstacles e1)) = length (filter hit (obstacles e)) + 1 \<and>
          hearts e1 = clamp (hearts e - 1) 0 6 \<and> hitCooldown (player e) \<le> 0 \<and>
          hitCooldown (player e1) = HIT_BUFFER e \<and> (\<not> ret \<longrightarrow> state e1 = state e) \<and>
          count_list (events e1) (PlaySfx SfxHit) =
            count_list (events e) (PlaySfx SfxHit) + 1)"
proof -
  obtain r2 e2 obs2 where l: "obstacle_loop e (obstacles e) = (r2, e2, obs2)"
    by (cases "obstacle_loop e (obstacles e)") auto
  with assms(1) have "ret = r2" "e1 = e2\<lparr>obstacles := obs2\<rparr>"
    by (simp_all add: obstacle_collisions_def)
  with obstacle_loop_one_hit [OF l assms(2)] show ?thesis by auto
qed

text \<open>What one step does to hearts, cooldown and the hit sounds, for a live cooldown constant.\<close>

lemma update_one_hit:
  assumes "state e = PLAYING" and "0 < HIT_BUFFER e"
  shows "(hearts e \<le> hearts (update dt rnd e) \<and> state (update dt rnd e) = PLAYING \<and>
          hitCooldown (player (update dt rnd e)) = max 0 (hitCooldown (player e) - dt) \<and>
          count_list (events (update dt rnd e)) (PlaySfx SfxHit) =
            count_list (events e) (PlaySfx SfxHit)) \<or>
         (clamp (hearts e - 1) 0 6 \<le> hearts (update dt rnd e) \<and>
          max 0 (hitCooldown (player e) - dt) \<le> 0 \<and>
          hitCooldown (player (update dt rnd e)) = HIT_BUFFER e \<and>
          count_list (events (update dt rnd e)) (PlaySfx SfxHit) =
            count_list (events e) (PlaySfx SfxHit) + 1)"
proof -
  let ?b = "before_collisions dt rnd (advance_world dt e)"
  obtain ret e2 where c: "obstacle_collisions ?b = (ret, e2)"
    by (cases "obstacle_collisions ?b") auto
  have b: "state ?b = PLAYING" "hearts ?b = hearts e" "events ?b = events e"
    "HIT_BUFFER ?b = HIT_BUFFER e"
    "hitCooldown (player ?b) = max 0 (hitCooldown (player e) - dt)"
    using assms
    by (simp_all add: before_collisions_lives advance_world_lives before_collisions_keeps
        player_physics_cooldown)
  from assms b have "0 < HIT_BUFFER ?b" by simp
  note o = obstacle_collisions_one_hit [OF c this]
  have u: "update dt rnd e = (if ret then e2 else cleanup (heart_collisions e2))"
    using assms c by (simp add: update_def Let_def advance_world_lives)
  have k: "hearts e2 \<le> hearts (cleanup (heart_collisions e2))"
    "state (cleanup (heart_collisions e2)) = state e2"
    "player (cleanup (heart_collisions e2)) = player e2"
    "count_list (events (cleanup (heart_collisions e2))) (PlaySfx SfxHit) =
       count_list (events e2) (PlaySfx SfxHit)"
    using heart_collisions_lives [of e2] heart_collisions_keeps [of e2]
    by (simp_all add: cleanup_lives cleanup_keeps)
  from o show ?thesis
  proof
    assume "map hit (obstacles e2) = map hit (obstacles ?b) \<and> hearts e2 = hearts ?b \<and>
          player e2 = player ?b \<and> state e2 = state ?b \<and> \<not> ret \<and>
          count_list (events e2) (PlaySfx SfxHit) = count_list (events ?b) (PlaySfx SfxHit)"
    with u k b have "hearts e \<le> hearts (update dt rnd e) \<and> state (update dt rnd e) = PLAYING \<and>
          hitCooldown (player (update dt rnd e)) = max 0 (hitCooldown (player e) - dt) \<and>
          count_list (events (update dt rnd e)) (PlaySfx SfxHit) =
            count_list (events e) (PlaySfx SfxHit)"
      by simp
    then show ?thesis ..
  next
    assume "length (filter hit (obstacles e2)) = length (filter hit (obstacles ?b)) + 1 \<and>
          hearts e2 = clamp (hearts ?b - 1) 0 6 \<and> hitCooldown (player ?b) \<le> 0 \<and>
          hitCooldown (player e2) = HIT_BUFFER ?b \<and> (\<not> ret \<longrightarrow> state e2 = state ?b) \<and>
          count_list (events e2) (PlaySfx SfxHit) =
            count_list (events ?b) (PlaySfx SfxHit) + 1"
    with u k b have "clamp (hearts e - 1) 0 6 \<le> hearts (update dt rnd e) \<and>
          max 0 (hitCooldown (player e) - dt) \<le> 0 \<and>
          hitCooldown (player (update dt rnd e)) = HIT_BUFFER e \<and>
          count_list (events (update dt rnd e)) (PlaySfx SfxHit) =
            count_list (events e) (PlaySfx SfxHit) + 1"
      by (cases ret) simp_all
    then show ?thesis ..
  qed
qed

section \<open>Scoring in the obstacle loop\<close>

lemma passed_no_collide:
  "x ob + w ob < x p \<Longrightarrow> 0 \<le> w p \<Longrightarrow> 0 \<le> w ob \<Longrightarrow> \<not> collide (shrunk p) (shrunk ob)"
  by (simp add: collide_def shrunk_def shrink_def Let_def)

lemma obstacle_step_box:
  assumes "obstacle_step e ob = (ret, e1, ob1)"
  shows "x (player e1) = x (player e) \<and> w (player e1) = w (player e) \<and>
         shrunk (player e1) = shrunk (player e) \<and>
         x ob1 = x ob \<and> w ob1 = w ob"
proof -
  from obstacle_step_untouched [OF assms]
  have "player (untouched e1) = player (untouched e)" by simp
  then have p: "(player e1)\<lparr>hitCooldown := 0\<rparr> = (player e)\<lparr>hitCooldown := 0\<rparr>"
    by (simp add: untouched_def)
  from arg_cong [OF p, of x] arg_cong [OF p, of y] arg_cong [OF p, of w] arg_cong [OF p, of h]
  have "x (player e1) = x (player e) \<and> y (player e1) = y (player e) \<and>
        w (player e1) = w (player e) \<and> h (player e1) = h (player e)"
    by simp
  moreover from assms have "x ob1 = x ob \<and> w ob1 = w ob"
    by (auto simp: obstacle_step_def score_obstacle_def Let_def split: if_splits)
  ultimately show ?thesis by (simp add: shrunk_def)
qed

lemma obstacle_step_flags:
  "obstacle_step e ob = (ret, e1, ob1) \<Longrightarrow>
   (hit ob \<longrightarrow> hit ob1) \<and> (scored ob \<longrightarrow> scored ob1) \<and>
   (scored ob1 \<and> \<not> scored ob \<longrightarrow> \<not> hit ob1 \<and> x ob + w ob < x (player e)) \<and>
   (hit ob1 \<and> \<not> hit ob \<longrightarrow> collide (shrunk (player e)) (shrunk ob)) \<and>
   score e1 = score e + (if scored ob1 \<and> \<not> scored ob then 1 else 0)"
  by (auto simp: obstacle_step_def score_obstacle_def emit_def Let_def split: if_splits)

lemma obstacle_step_passed:
  assumes "x ob + w ob < x (player e)" and "0 \<le> w (player e)" and "0 \<le> w ob"
    and "\<not> hit ob"
  shows "obstacle_step e ob =
           (if scored ob then (False, e, ob)
            else (False, emit (OnScore (score e + 1)) (e\<lparr>score := score e + 1\<rparr>),
                  ob\<lparr>scored := True\<rparr>))"
  using passed_no_collide [OF assms(1-3)] assms(1,4)
  by (simp add: obstacle_step_def score_obstacle_def Let_def)

lemma obstacle_loop_length:
  "obstacle_loop e obs = (ret, e1, obs1) \<Longrightarrow> length obs1 = length obs"
proof (induction obs arbitrary: e ret e1 obs1)
  case Nil
  then show ?case by simp
next
  case (Cons ob obs)
  then show ?case
    by (auto split: prod.splits bool.splits if_splits)
qed

lemma obstacle_loop_score:
  "obstacle_loop e obs = (ret, e1, obs1) \<Longrightarrow>
   score e1 + int (length (filter scored obs)) = score e + int (length (filter scored obs1))"
proof (induction obs arbitrary: e ret e1 obs1)
  case Nil
  then show ?case by simp
next
  case (Cons ob obs)
  obtain r1 e2 ob2 where s: "obstacle_step e ob = (r1, e2, ob2)"
    by (cases "obstacle_step e ob") auto
  note f = obstacle_step_flags [OF s]
  show ?case
  proof (cases r1)
    case True
    with Cons.prems s have "e1 = e2" "obs1 = ob2 # obs" by simp_all
    with f show ?thesis by auto
  next
    case False
    obtain r3 e3 obs3 where l: "obstacle_loop e2 obs = (r3, e3, obs3)"
      by (cases "obstacle_loop e2 obs") auto
    with Cons.prems s False have "e1 = e3" "obs1 = ob2 # obs3" by simp_all
    with Cons.IH [OF l] f show ?thesis by auto
  qed
qed

lemma obstacle_loop_newly_scored:
  "obstacle_loop e obs = (ret, e1, obs1) \<Longrightarrow>
   list_all2 (\<lambda>ob ob1. scored ob1 \<and> \<not> scored ob \<longrightarrow> \<not> hit ob1 \<and> x ob + w ob < x (player e))
     obs obs1"
proof (induction obs arbitrary: e ret e1 obs1)
  case Nil
  then show ?case by simp
next
  case (Cons ob obs)
  obtain r1 e2 ob2 where s: "obstacle_step e ob = (r1, e2, ob2)"
    by (cases "obstacle_step e ob") auto
  note f = obstacle_step_flags [OF s]
  show ?case
  proof (cases r1)
    case True
    with Cons.prems s have "obs1 = ob2 # obs" by simp
    with f show ?thesis by (simp add: list_all2_refl)
  next
    case False
    obtain r3 e3 obs3 where l: "obstacle_loop e2 obs = (r3, e3, obs3)"
      by (cases "obstacle_loop e2 obs") auto
    with Cons.prems s False have "obs1 = ob2 # obs3" by simp
    with Cons.IH [OF l] f obstacle_step_box [OF s] show ?thesis by simp
  qed
qed

lemma heart_step_obstacles: "heart_step e hr = (e1, hr1) \<Longrightarrow> obstacles e1 = obstacles e"
  by (auto simp: heart_step_def emit_def Let_def split: if_splits)

lemma heart_loop_obstacles: "heart_loop e hrs = (e1, hrs1) \<Longrightarrow> obstacles e1 = obstacles e"
proof (induction hrs arbitrary: e e1 hrs1)
  case Nil
  then show ?case by simp
next
  case (Cons hr hrs)
  then show ?case
    by (auto split: prod.splits dest!: heart_step_obstacles)
qed

lemma heart_collisions_obstacles: "obstacles (heart_collisions e) = obstacles e"
  by (auto simp: heart_collisions_def split: prod.splits dest!: heart_loop_obstacles)

lemma obstacle_loop_Cons_fst:
  "obstacle_step e ob = (r1, e2, ob2) \<Longrightarrow>
   fst (obstacle_loop e (ob # obs)) = (r1 \<or> fst (obstacle_loop e2 obs))"
  by (cases "obstacle_loop e2 obs"; cases r1; simp)

lemma obstacle_loop_prefix:
  "obstacle_loop e obs = (False, e1, obs1) \<Longrightarrow> fst (obstacle_loop e (take i obs)) = False"
proof (induction obs arbitrary: e e1 obs1 i)
  case Nil
  then show ?case by simp
next
  case (Cons ob obs)
  obtain r1 e2 ob2 where s: "obstacle_step e ob = (r1, e2, ob2)"
    by (cases "obstacle_step e ob") auto
  from Cons.prems s have r1: "\<not> r1" by (cases r1) auto
  obtain r3 e3 obs3 where l: "obstacle_loop e2 obs = (r3, e3, obs3)"
    by (cases "obstacle_loop e2 obs") auto
  from Cons.prems s r1 l have r3: "r3 = False" by simp
  show ?case
  proof (cases i)
    case 0
    then show ?thesis by simp
  next
    case (Suc j)
    have c: "fst (obstacle_loop e (take (Suc j) (ob # obs)))
             = (r1 \<or> fst (obstacle_loop e2 (take j obs)))"
      using obstacle_loop_Cons_fst [OF s, of "take j obs"] by (simp only: take_Suc_Cons)
    from Cons.IH [OF l [unfolded r3], of j] r1 show ?thesis
      unfolding Suc c by simp
  qed
qed

lemma obstacle_loop_reached:
  "obstacle_loop e obs = (ret, e1, obs1) \<Longrightarrow> i < length obs \<Longrightarrow>
   fst (obstacle_loop e (take i obs)) = False \<Longrightarrow>
   \<not> hit (obs ! i) \<Longrightarrow> x (obs ! i) + w (obs ! i) < x (player e) \<Longrightarrow>
   0 \<le> w (player e) \<Longrightarrow> 0 \<le> w (obs ! i) \<Longrightarrow>
   obs1 ! i = (obs ! i)\<lparr>scored := True\<rparr>"
proof (induction obs arbitrary: e ret e1 obs1 i)
  case Nil
  then show ?case by simp
next
  case (Cons ob obs)
  obtain r1 e2 ob2 where s: "obstacle_step e ob = (r1, e2, ob2)"
    by (cases "obstacle_step e ob") auto
  show ?case
  proof (cases i)
    case 0
    with Cons.prems have p: "x ob + w ob < x (player e)" "0 \<le> w (player e)" "0 \<le> w ob" "\<not> hit ob"
      by simp_all
    from obstacle_step_passed [OF p] s have o: "\<not> r1" "ob2 = ob\<lparr>scored := True\<rparr>"
      by (cases "scored ob"; auto)+
    obtain r3 e3 obs3 where l: "obstacle_loop e2 obs = (r3, e3, obs3)"
      by (cases "obstacle_loop e2 obs") auto
    from Cons.prems(1) s o l have "obs1 = ob2 # obs3" by simp
    with 0 o show ?thesis by simp
  next
    case (Suc j)
    have c: "fst (obstacle_loop e (take (Suc j) (ob # obs)))
             = (r1 \<or> fst (obstacle_loop e2 (take j obs)))"
      using obstacle_loop_Cons_fst [OF s, of "take j obs"] by (simp only: take_Suc_Cons)
    from Cons.prems(3) [unfolded Suc c] have r1: "\<not> r1" by simp
    obtain r3 e3 obs3 where l: "obstacle_loop e2 obs = (r3, e3, obs3)"
      by (cases "obstacle_loop e2 obs") auto
    from Cons.prems(1) s r1 l have eq: "obs1 = ob2 # obs3" by simp
    from Cons.prems(3) [unfolded Suc c] have pre: "fst (obstacle_loop e2 (take j obs)) = False"
      by simp
    note b = obstacle_step_box [OF s]
    from Suc Cons.prems b have "j < length obs" "\<not> hit (obs ! j)"
      "x (obs ! j) + w (obs ! j) < x (player e2)" "0 \<le> w (player e2)" "0 \<le> w (obs ! j)"
      by simp_all
    from Cons.IH [OF l this(1) pre this(2-5)] Suc eq show ?thesis by simp
  qed
qed

lemma update_after_any_loop:
  assumes "state g = PLAYING"
    and "obstacle_collisions (before_collisions dt rnd (advance_world dt g)) = (ret, e1)"
  shows "score (update dt rnd g) = score e1 \<and>
         obstacles (update dt rnd g)
           = (if ret then obstacles e1
              else filter (\<lambda>ob. \<not> remove ob \<and> x ob + w ob > - 40) (obstacles e1))"
proof (cases ret)
  case True
  with assms have "update dt rnd g = e1"
    by (simp add: update_def Let_def advance_world_lives)
  with True show ?thesis by simp
next
  case False
  with assms have "update dt rnd g = cleanup (heart_collisions e1)"
    by (simp add: update_def Let_def advance_world_lives)
  with False show ?thesis
    using heart_collisions_lives [of e1]
    by (simp add: cleanup_lives) (simp add: cleanup_def heart_collisions_obstacles)
qed

section \<open>Hit and scored flags through the obstacle loop\<close>

lemma scales_ok_untouched: "scales_ok (untouched e) = scales_ok e"
  by (simp add: scales_ok_def untouched_def)

lemma player_x_untouched: "x (player (untouched e)) = x (player e)"
  by (simp add: untouched_def)

lemma obstacle_step_ob_ok:
  assumes s: "obstacle_step e ob = (ret, e1, ob1)"
    and p: "0 \<le> w (player e)" and o: "ob_ok (x (player e)) ob"
  shows "ob_ok (x (player e)) ob1 \<and> (scored ob \<longrightarrow> scored ob1 \<and> \<not> hit ob1) \<and>
         (hit ob \<longrightarrow> hit ob1 \<and> \<not> scored ob1)"
proof -
  note f = obstacle_step_flags [OF s]
  note b = obstacle_step_box [OF s]
  have sc: "scored ob \<longrightarrow> scored ob1 \<and> \<not> hit ob1"
  proof
    assume a: "scored ob"
    with o have "x ob + w ob < x (player e)" "0 \<le> w ob" "\<not> hit ob"
      by (auto simp: ob_ok_def)
    with passed_no_collide [OF this(1) p this(2)] f a show "scored ob1 \<and> \<not> hit ob1"
      by auto
  qed
  have hi: "hit ob \<longrightarrow> hit ob1 \<and> \<not> scored ob1"
  proof
    assume a: "hit ob"
    with o have "\<not> scored ob" by (auto simp: ob_ok_def)
    with f a show "hit ob1 \<and> \<not> scored ob1" by auto
  qed
  have "ob_ok (x (player e)) ob1"
    unfolding ob_ok_def
  proof (intro conjI impI)
    from o b show "0 \<le> w ob1" by (simp add: ob_ok_def)
    from sc hi f show "\<not> (hit ob1 \<and> scored ob1)" by auto
    assume "scored ob1"
    with f o b show "x ob1 + w ob1 < x (player e)"
      by (cases "scored ob") (auto simp: ob_ok_def)
  qed
  with sc hi show ?thesis by simp
qed

lemma obstacle_loop_ob_ok:
  "obstacle_loop e obs = (ret, e1, obs1) \<Longrightarrow> 0 \<le> w (player e) \<Longrightarrow>
   \<forall>ob \<in> set obs. ob_ok (x (player e)) ob \<Longrightarrow>
   list_all2 (\<lambda>ob ob1. ob_ok (x (player e)) ob1 \<and> (scored ob \<longrightarrow> scored ob1 \<and> \<not> hit ob1) \<and>
                        (hit ob \<longrightarrow> hit ob1 \<and> \<not> scored ob1)) obs obs1"
proof (induction obs arbitrary: e ret e1 obs1)
  case Nil
  then show ?case by simp
next
  case (Cons ob obs)
  obtain r1 e2 ob2 where s: "obstacle_step e ob = (r1, e2, ob2)"
    by (cases "obstacle_step e ob") auto
  from Cons.prems have o: "ob_ok (x (player e)) ob" by simp
  note f = obstacle_step_ob_ok [OF s Cons.prems(2) o]
  note b = obstacle_step_box [OF s]
  show ?case
  proof (cases r1)
    case True
    with Cons.prems s have "obs1 = ob2 # obs" by simp
    moreover from Cons.prems(3)
    have "list_all2 (\<lambda>ob ob1. ob_ok (x (player e)) ob1 \<and> (scored ob \<longrightarrow> scored ob1 \<and> \<not> hit ob1) \<and>
                        (hit ob \<longrightarrow> hit ob1 \<and> \<not> scored ob1)) obs obs"
      by (auto simp: list_all2_same ob_ok_def)
    ultimately show ?thesis using f by simp
  next
    case False
    obtain r3 e3 obs3 where l: "obstacle_loop e2 obs = (r3, e3, obs3)"
      by (cases "obstacle_loop e2 obs") auto
    with Cons.prems s False have eq: "obs1 = ob2 # obs3" by simp
    from Cons.prems b have "0 \<le> w (player e2)" "\<forall>ob \<in> set obs. ob_ok (x (player e2)) ob"
      by simp_all
    from Cons.IH [OF l this] b f eq show ?thesis by simp
  qed
qed

lemma obstacle_collisions_flags_ok:
  assumes c: "obstacle_collisions e = (ret, e1)" and f: "flags_ok e"
  shows "flags_ok e1 \<and>
         list_all2 (\<lambda>ob ob1. \<not> (hit ob1 \<and> scored ob1) \<and> (scored ob \<longrightarrow> scored ob1 \<and> \<not> hit ob1) \<and>
                              (hit ob \<longrightarrow> hit ob1 \<and> \<not> scored ob1)) (obstacles e) (obstacles e1)"
proof -
  obtain r2 e2 obs2 where l: "obstacle_loop e (obstacles e) = (r2, e2, obs2)"
    by (cases "obstacle_loop e (obstacles e)") auto
  with c have eq: "e1 = e2\<lparr>obstacles := obs2\<rparr>"
    by (simp add: obstacle_collisions_def)
  from f have p: "0 \<le> w (player e)" "\<forall>ob \<in> set (obstacles e). ob_ok (x (player e)) ob"
    by (simp_all add: flags_ok_def scales_ok_def)
  note a = obstacle_loop_ob_ok [OF l p]
  note t = obstacle_collisions_untouched [OF c]
  have "scales_ok e1" using scales_ok_untouched [of e1] scales_ok_untouched [of e] t f
    by (simp add: flags_ok_def)
  moreover have "x (player e1) = x (player e)"
    using player_x_untouched [of e1] player_x_untouched [of e] t by simp
  moreover from a have "\<forall>ob1 \<in> set obs2. ob_ok (x (player e)) ob1"
    by (auto simp: list_all2_conv_all_nth in_set_conv_nth)
  moreover from a have "list_all2 (\<lambda>ob ob1. \<not> (hit ob1 \<and> scored ob1) \<and>
      (scored ob \<longrightarrow> scored ob1 \<and> \<not> hit ob1) \<and> (hit ob \<longrightarrow> hit ob1 \<and> \<not> scored ob1))
      (obstacles e) obs2"
    by (rule list_all2_mono) (auto simp: ob_ok_def)
  ultimately show ?thesis using eq by (simp add: flags_ok_def)
qed

section \<open>The flag invariant through the phases\<close>

lemma advance_world_flags_ok: "flags_ok e \<Longrightarrow> flags_ok (advance_world dt e)"
  by (simp add: flags_ok_def scales_ok_def advance_world_def Let_def)

lemma ramp_difficulty_flags_ok: "0 \<le> dt \<Longrightarrow> flags_ok e \<Longrightarrow> flags_ok (ramp_difficulty dt e)"
  by (simp add: flags_ok_def scales_ok_def ramp_difficulty_def Let_def)

lemma player_physics_flags_ok: "flags_ok e \<Longrightarrow> flags_ok (player_physics dt e)"
  by (simp add: flags_ok_def scales_ok_def player_physics_def Let_def)

lemma spawn_obstacle_flags_ok: "flags_ok e \<Longrightarrow> flags_ok (spawn_obstacle dt rnd e)"
  by (simp add: flags_ok_def scales_ok_def ob_ok_def spawn_obstacle_def Let_def)

lemma spawn_heart_flags_ok: "flags_ok e \<Longrightarrow> flags_ok (spawn_heart dt rnd e)"
  by (simp add: flags_ok_def scales_ok_def spawn_heart_def Let_def)

lemma move_world_flags_ok:
  assumes "0 \<le> dt" and "flags_ok e"
  shows "flags_ok (move_world dt e)"
proof -
  from assms have v: "0 \<le> speed e * dt" by (simp add: flags_ok_def scales_ok_def)
  have "ob_ok px (ob\<lparr>x := x ob - speed e * dt\<rparr>)" if "ob_ok px ob" for px ob
    using that v by (auto simp: ob_ok_def)
  with assms(2) show ?thesis
    by (simp add: flags_ok_def scales_ok_def move_world_def Let_def)
qed

lemma before_collisions_flags_ok:
  "0 \<le> dt \<Longrightarrow> flags_ok e \<Longrightarrow> flags_ok (before_collisions dt rnd (advance_world dt e))"
  by (simp add: before_collisions_def move_world_flags_ok spawn_heart_flags_ok
      spawn_obstacle_flags_ok player_physics_flags_ok ramp_difficulty_flags_ok
      advance_world_flags_ok)

lemma heart_collisions_flags_ok: "flags_ok e \<Longrightarrow> flags_ok (heart_collisions e)"
proof -
  assume f: "flags_ok e"
  have "scales_ok (heart_collisions e)"
    using scales_ok_untouched [of "heart_collisions e"] scales_ok_untouched [of e] f
    by (simp add: heart_collisions_untouched flags_ok_def)
  moreover have "x (player (heart_collisions e)) = x (player e)"
    by (simp add: heart_collisions_keeps)
  ultimately show ?thesis using f
    by (simp add: flags_ok_def heart_collisions_obstacles)
qed

lemma cleanup_flags_ok: "flags_ok e \<Longrightarrow> flags_ok (cleanup e)"
  by (simp add: flags_ok_def scales_ok_def cleanup_def)

lemma update_flags_ok:
  assumes "0 \<le> dt" and "flags_ok e"
  shows "flags_ok (update dt rnd e)"
proof (cases "state e = PLAYING")
  case True
  let ?b = "before_collisions dt rnd (advance_world dt e)"
  obtain ret e2 where c: "obstacle_collisions ?b = (ret, e2)"
    by (cases "obstacle_collisions ?b") auto
  have u: "update dt rnd e = (if ret then e2 else cleanup (heart_collisions e2))"
    using True c by (simp add: update_def Let_def advance_world_lives)
  from obstacle_collisions_flags_ok [OF c before_collisions_flags_ok [OF assms]]
  have "flags_ok e2" by simp
  with u show ?thesis
    by (simp add: cleanup_flags_ok heart_collisions_flags_ok)
next
  case False
  then have "update dt rnd e = advance_world dt e"
    by (simp add: update_def Let_def advance_world_lives)
  with assms(2) show ?thesis by (simp add: advance_world_flags_ok)
qed

lemma startGame_flags_ok: "0 \<le> u e \<Longrightarrow> 0 \<le> size_h e \<Longrightarrow> flags_ok (startGame e)"
  by (simp add: flags_ok_def scales_ok_def startGame_def DESIGN_HEIGHT_def Let_def)

lemma apply_input_flags_ok:
  assumes "flags_ok e" and "resize_ok i"
  shows "flags_ok (apply_input i e)"
proof (cases i)
  case (Update rnd)
  with assms(1) show ?thesis by (simp add: update_flags_ok fixed_step_def)
next
  case StartGame
  from assms(1) have "0 \<le> u e" "0 \<le> size_h e" by (simp_all add: flags_ok_def scales_ok_def)
  with StartGame show ?thesis by (simp add: startGame_flags_ok)
next
  case PauseGame
  with assms(1) show ?thesis by (simp add: flags_ok_def scales_ok_def pauseGame_def)
next
  case ResumeGame
  with assms(1) show ?thesis by (simp add: flags_ok_def scales_ok_def resumeGame_def)
next
  case DoJump
  with assms(1) show ?thesis
    by (simp add: flags_ok_def scales_ok_def doJump_def emit_def Let_def)
next
  case (HandleResize cw ch got_ctx flies)
  with assms show ?thesis
    by (simp add: flags_ok_def scales_ok_def ob_ok_def handleResize_def resize_ok_def
        DESIGN_HEIGHT_def Let_def)
qed

lemma run_flags_ok:
  "flags_ok e \<Longrightarrow> \<forall>i \<in> set ins. resize_ok i \<Longrightarrow> flags_ok (run ins e)"
  unfolding run_def by (induction ins arbitrary: e) (simp_all add: apply_input_flags_ok)

section \<open>Invariants over runs\<close>

lemma update_hearts_ok: "hearts_ok e \<Longrightarrow> hearts_ok (update dt rnd e)"
proof (cases "state e = PLAYING")
  case True
  assume h: "hearts_ok e"
  with True have "0 < hearts e" "hearts e \<le> 6" by (auto simp: hearts_ok_def)
  with update_lives [OF True this(1), of dt rnd] show ?thesis
    by (auto simp: hearts_ok_def)
next
  case False
  assume h: "hearts_ok e"
  from False have "state (update dt rnd e) = state e" "hearts (update dt rnd e) = hearts e"
    by (simp_all add: update_def Let_def advance_world_lives)
  with h show ?thesis by (simp add: hearts_ok_def)
qed

lemma apply_input_hearts_ok: "hearts_ok e \<Longrightarrow> hearts_ok (apply_input i e)"
proof (cases i)
  case (Update rnd)
  assume "hearts_ok e"
  with Update show ?thesis by (simp add: update_hearts_ok)
next
  case StartGame
  then show ?thesis by (simp add: hearts_ok_def startGame_def Let_def)
next
  case PauseGame
  assume "hearts_ok e"
  with PauseGame show ?thesis by (auto simp: hearts_ok_def pauseGame_def)
next
  case ResumeGame
  assume "hearts_ok e"
  with ResumeGame show ?thesis by (auto simp: hearts_ok_def resumeGame_def)
next
  case DoJump
  assume "hearts_ok e"
  with DoJump show ?thesis by (auto simp: hearts_ok_def doJump_def emit_def Let_def)
next
  case (HandleResize cw ch got_ctx flies)
  assume "hearts_ok e"
  with HandleResize show ?thesis by (auto simp: hearts_ok_def handleResize_def Let_def)
qed

lemma run_hearts_ok: "hearts_ok e \<Longrightarrow> hearts_ok (run ins e)"
  unfolding run_def by (induction ins arbitrary: e) (simp_all add: apply_input_hearts_ok)

lemma startGame_hearts_ok: "hearts_ok (startGame e)"
  by (simp add: hearts_ok_def startGame_def Let_def)

lemma apply_input_game_over:
  assumes "state e = GAMEOVER" and "i \<noteq> StartGame"
  shows "state (apply_input i e) = GAMEOVER \<and> hearts (apply_input i e) = hearts e \<and>
         score (apply_input i e) = score e \<and> events (apply_input i e) = events e"
proof (cases i)
  case (Update rnd)
  with assms(1) show ?thesis by (simp add: update_def Let_def advance_world_lives)
next
  case StartGame
  with assms(2) show ?thesis by simp
next
  case PauseGame
  with assms(1) show ?thesis by (simp add: pauseGame_def)
next
  case ResumeGame
  with assms(1) show ?thesis by (simp add: resumeGame_def)
next
  case DoJump
  with assms(1) show ?thesis by (simp add: doJump_def)
next
  case (HandleResize cw ch got_ctx flies)
  with assms(1) show ?thesis by (simp add: handleResize_def Let_def)
qed

lemma run_game_over:
  "state e = GAMEOVER \<Longrightarrow> StartGame \<notin> set ins \<Longrightarrow>
   state (run ins e) = GAMEOVER \<and> hearts (run ins e) = hearts e \<and>
   score (run ins e) = score e \<and> events (run ins e) = events e"
  unfolding run_def
proof (induction ins arbitrary: e)
  case Nil
  then show ?case by simp
next
  case (Cons i ins)
  from Cons.prems have "i \<noteq> StartGame" "StartGame \<notin> set ins" by auto
  with apply_input_game_over [OF Cons.prems(1) this(1)] Cons.IH [of "apply_input i e"]
  show ?case by simp
qed

section \<open>Unfolding the step on sample states\<close>

lemmas phase_defs = update_def advance_world_def before_collisions_def ramp_difficulty_def
  player_physics_def spawn_obstacle_def spawn_heart_def move_world_def obstacle_collisions_def
  obstacle_step_def score_obstacle_def heart_collisions_def heart_step_def cleanup_def
  emit_def clamp_def shrunk_def shrink_def collide_def twinkle_fly_def drift_fly_def

lemmas sample_defs = title_engine_def playing_engine_def startGame_def no_rolls_def
  small_mushroom_def heart_at_def fixed_step_def DESIGN_HEIGHT_def

section \<open>The player through a step\<close>

lemma update_untouched:
  assumes "state e = PLAYING"
  shows "untouched (update dt rnd e) = untouched (before_collisions dt rnd (advance_world dt e))"
proof -
  let ?b = "before_collisions dt rnd (advance_world dt e)"
  obtain ret e2 where c: "obstacle_collisions ?b = (ret, e2)"
    by (cases "obstacle_collisions ?b") auto
  have u: "update dt rnd e = (if ret then e2 else cleanup (heart_collisions e2))"
    using assms c by (simp add: update_def Let_def advance_world_lives)
  from obstacle_collisions_untouched [OF c] u show ?thesis
    by (simp add: cleanup_untouched heart_collisions_untouched)
qed

lemma player_untouched: "player (untouched e) = (player e)\<lparr>hitCooldown := 0\<rparr>"
  by (simp add: untouched_def)

lemma update_player:
  assumes "state e = PLAYING"
  shows "(player (update dt rnd e))\<lparr>hitCooldown := 0\<rparr>
         = (player (player_physics dt e))\<lparr>hitCooldown := 0\<rparr>"
proof -
  have "player (untouched (update dt rnd e))
        = player (untouched (before_collisions dt rnd (advance_world dt e)))"
    by (simp add: update_untouched [OF assms])
  then show ?thesis
    by (simp add: player_untouched before_collisions_keeps)
qed

lemma update_player_fields:
  assumes "state e = PLAYING"
  shows "onGround (player (update dt rnd e)) = onGround (player (player_physics dt e))"
    and "jumpsRemaining (player (update dt rnd e)) = jumpsRemaining (player (player_physics dt e))"
    and "y (player (update dt rnd e)) = y (player (player_physics dt e))"
    and "vy (player (update dt rnd e)) = vy (player (player_physics dt e))"
    and "x (player (update dt rnd e)) = x (player (player_physics dt e))"
proof -
  note p = update_player [OF assms, of dt rnd]
  from arg_cong [OF p, of onGround]
  show "onGround (player (update dt rnd e)) = onGround (player (player_physics dt e))" by simp
  from arg_cong [OF p, of jumpsRemaining]
  show "jumpsRemaining (player (update dt rnd e)) = jumpsRemaining (player (player_physics dt e))"
    by simp
  from arg_cong [OF p, of y]
  show "y (player (update dt rnd e)) = y (player (player_physics dt e))" by simp
  from arg_cong [OF p, of vy]
  show "vy (player (update dt rnd e)) = vy (player (player_physics dt e))" by simp
  from arg_cong [OF p, of x]
  show "x (player (update dt rnd e)) = x (player (player_physics dt e))" by simp
qed

lemma player_physics_landing:
  "jumpsRemaining (player (player_physics dt e))
     = (if \<not> onGround (player e) \<and> onGround (player (player_physics dt e)) then 2
        else jumpsRemaining (player e)) \<and>
   (onGround (player (player_physics dt e)) \<longrightarrow>
      y (player (player_physics dt e)) = groundY e - h (player e) \<and>
      vy (player (player_physics dt e)) = 0 \<and>
      groundY e - h (player e) \<le> y (player e) + (vy (player e) + G e * dt) * dt) \<and>
   (\<not> onGround (player (player_physics dt e)) \<longrightarrow>
      y (player e) + (vy (player e) + G e * dt) * dt < groundY e - h (player e))"
  by (simp add: player_physics_def Let_def)

lemma update_keeps_player_outside: "state e \<noteq> PLAYING \<Longrightarrow> player (update dt rnd e) = player e"
  by (simp add: update_def Let_def advance_world_lives advance_world_keeps)

section \<open>The heart loop at the cap\<close>

lemma heart_loop_at_cap:
  "6 \<le> hearts e \<Longrightarrow>
   heart_loop e hrs =
     (e, map (\<lambda>hr. if \<not> taken hr \<and> collide (shrunk (player e)) (shrunk hr)
                     then hr\<lparr>taken := True\<rparr> else hr) hrs)"
  by (induction hrs) (simp_all add: heart_step_def Let_def)

section \<open>The spawn phase\<close>

lemma spawn_inputs:
  "obsTimer (player_physics dt (ramp_difficulty dt (advance_world dt e))) = obsTimer e \<and>
   obsInterval (player_physics dt (ramp_difficulty dt (advance_world dt e))) = obsInterval e \<and>
   lastObstacleX (player_physics dt (ramp_difficulty dt (advance_world dt e))) = lastObstacleX e \<and>
   size_w (player_physics dt (ramp_difficulty dt (advance_world dt e))) = size_w e \<and>
   minGapPx (player_physics dt (ramp_difficulty dt (advance_world dt e))) = minGapPx e \<and>
   u (player_physics dt (ramp_difficulty dt (advance_world dt e))) = u e \<and>
   obstacles (player_physics dt (ramp_difficulty dt (advance_world dt e))) = obstacles e \<and>
   speed (player_physics dt (ramp_difficulty dt (advance_world dt e)))
     = 350 + (difficultySeconds e + dt) * 4"
  by (simp add: player_physics_def ramp_difficulty_def advance_world_def Let_def)

lemma spawn_obstacle_blocked:
  "obsInterval e \<le> obsTimer e + dt \<Longrightarrow> \<not> lastObstacleX e < size_w e - minGapPx e \<Longrightarrow>
   spawn_obstacle dt rnd e = e\<lparr>obsTimer := obsInterval e * 0.7\<rparr>"
  by (simp add: spawn_obstacle_def Let_def)

lemma spawn_obstacle_placed:
  "obsInterval e \<le> obsTimer e + dt \<Longrightarrow> lastObstacleX e < size_w e - minGapPx e \<Longrightarrow>
   obsTimer (spawn_obstacle dt rnd e) = 0 \<and>
   lastObstacleX (spawn_obstacle dt rnd e) = size_w e + 40 * u e \<and>
   speed (spawn_obstacle dt rnd e) = speed e \<and>
   (\<exists>ob. obstacles (spawn_obstacle dt rnd e) = obstacles e @ [ob] \<and>
         x ob = size_w e + 40 * u e \<and> \<not> hit ob \<and> \<not> scored ob \<and> \<not> remove ob)"
  by (simp add: spawn_obstacle_def Let_def)

lemma spawn_obstacle_waiting:
  "obsTimer e + dt < obsInterval e \<Longrightarrow>
   spawn_obstacle dt rnd e
     = e\<lparr>obsTimer := obsTimer e + dt, lastObstacleX := lastObstacleX e - speed e * dt\<rparr>"
  by (simp add: spawn_obstacle_def Let_def)

lemma after_spawn:
  "obsTimer (move_world dt (spawn_heart dt rnd e)) = obsTimer e \<and>
   obsInterval (move_world dt (spawn_heart dt rnd e)) = obsInterval e \<and>
   lastObstacleX (move_world dt (spawn_heart dt rnd e)) = lastObstacleX e \<and>
   obstacles (move_world dt (spawn_heart dt rnd e))
     = map (\<lambda>ob. ob\<lparr>x := x ob - speed e * dt\<rparr>) (obstacles e)"
  by (simp add: move_world_def spawn_heart_def Let_def)

lemma spawn_fields_untouched:
  "obsTimer (untouched e) = obsTimer e \<and> obsInterval (untouched e) = obsInterval e \<and>
   lastObstacleX (untouched e) = lastObstacleX e"
  by (simp add: untouched_def)

lemma update_spawn_fields:
  assumes "state e = PLAYING"
  shows "obsTimer (update dt rnd e) = obsTimer (before_collisions dt rnd (advance_world dt e)) \<and>
         obsInterval (update dt rnd e)
           = obsInterval (before_collisions dt rnd (advance_world dt e)) \<and>
         lastObstacleX (update dt rnd e)
           = lastObstacleX (before_collisions dt rnd (advance_world dt e))"
  using spawn_fields_untouched [of "update dt rnd e"]
    spawn_fields_untouched [of "before_collisions dt rnd (advance_world dt e)"]
  by (simp add: update_untouched [OF assms])

section \<open>The drain loop of the stepper\<close>

lemma drain_steps:
  "drain rnds k acc e calls =
     (acc - real (nat \<lfloor>acc * 60\<rfloor>) * fixed_step,
      fold (\<lambda>j. update fixed_step (rnds j)) [k ..< k + nat \<lfloor>acc * 60\<rfloor>] e,
      calls @ replicate (nat \<lfloor>acc * 60\<rfloor>) (CallUpdate fixed_step))"
proof (induction rnds k acc e calls rule: drain.induct)
  case (1 rnds k acc e calls)
  show ?case
  proof (cases "fixed_step \<le> acc")
    case True
    have f: "\<lfloor>(acc - fixed_step) * 60\<rfloor> = \<lfloor>acc * 60\<rfloor> - 1"
      by (simp add: fixed_step_def algebra_simps)
    have p: "1 \<le> \<lfloor>acc * 60\<rfloor>"
      using True by (simp add: fixed_step_def le_floor_iff)
    obtain m where m: "nat \<lfloor>acc * 60\<rfloor> = Suc m"
      using p by (cases "nat \<lfloor>acc * 60\<rfloor>") auto
    with f have m': "nat \<lfloor>(acc - fixed_step) * 60\<rfloor> = m" by simp
    have u: "[k ..< k + Suc m] = k # [k + 1 ..< k + 1 + m]"
      by (simp add: upt_rec)
    have "drain rnds k acc e calls
          = drain rnds (k + 1) (acc - fixed_step) (update fixed_step (rnds k) e)
              (calls @ [CallUpdate fixed_step])"
      using True by (simp add: drain.simps [of rnds k acc])
    also have "\<dots> = (acc - fixed_step - real m * fixed_step,
        fold (\<lambda>j. update fixed_step (rnds j)) [k + 1 ..< k + 1 + m]
          (update fixed_step (rnds k) e),
        (calls @ [CallUpdate fixed_step]) @ replicate m (CallUpdate fixed_step))"
      using "1.IH" [OF True] m' by simp
    also have "\<dots> = (acc - real (Suc m) * fixed_step,
        fold (\<lambda>j. update fixed_step (rnds j)) [k ..< k + Suc m] e,
        calls @ replicate (Suc m) (CallUpdate fixed_step))"
      unfolding u by (simp add: algebra_simps)
    finally show ?thesis using m by simp
  next
    case False
    then have "\<lfloor>acc * 60\<rfloor> \<le> 0"
      by (simp add: fixed_step_def floor_le_iff)
    then have "nat \<lfloor>acc * 60\<rfloor> = 0" by simp
    with False show ?thesis by (simp add: drain.simps [of rnds k acc])
  qed
qed

lemma drain_remainder: "acc - real (nat \<lfloor>acc * 60\<rfloor>) * fixed_step < fixed_step"
proof (cases "0 \<le> acc")
  case True
  then have r: "real (nat \<lfloor>acc * 60\<rfloor>) = of_int \<lfloor>acc * 60\<rfloor>" by simp
  have c: "acc * 60 < of_int \<lfloor>acc * 60\<rfloor> + 1" by linarith
  from r c show ?thesis unfolding fixed_step_def by linarith
next
  case False
  then have "nat \<lfloor>acc * 60\<rfloor> = 0" by (simp add: floor_le_iff mult_le_0_iff)
  with False show ?thesis by (simp add: fixed_step_def)
qed

section \<open>Hearts and game over\<close>

text \<open>
  Claim C1. A session starts with 3 hearts. After any run of calls that follows
  \<^verbatim>\<open>startGame\<close> (steps of \<^verbatim>\<open>update\<close>, jumps, pauses, resumes, resizes, restarts) the hearts
  counter lies in [0,6], and it is 0 exactly when the state is \<open>GAMEOVER\<close>. A step taken
  in \<open>PLAYING\<close> with hearts left that ends with 0 hearts ends in \<open>GAMEOVER\<close>: the
  transition happens in the step of the hit. From \<open>GAMEOVER\<close> on, no run without a
  \<^verbatim>\<open>startGame\<close> changes hearts, score or state.
\<close>

theorem hearts_session:
  "hearts (startGame e0) = 3 \<and> state (startGame e0) = PLAYING \<and>
   0 \<le> hearts (run ins (startGame e0)) \<and> hearts (run ins (startGame e0)) \<le> 6 \<and>
   (hearts (run ins (startGame e0)) = 0 \<longleftrightarrow> state (run ins (startGame e0)) = GAMEOVER) \<and>
   (state e = PLAYING \<and> 0 < hearts e \<and> hearts (update dt rnd e) = 0
      \<longrightarrow> state (update dt rnd e) = GAMEOVER) \<and>
   (state g = GAMEOVER \<and> StartGame \<notin> set later
      \<longrightarrow> state (run later g) = GAMEOVER \<and> hearts (run later g) = hearts g \<and>
          score (run later g) = score g)"
proof -
  have s: "hearts (startGame e0) = 3 \<and> state (startGame e0) = PLAYING"
    by (simp add: startGame_def Let_def)
  have "hearts_ok (run ins (startGame e0))"
    by (rule run_hearts_ok) (rule startGame_hearts_ok)
  then have r: "0 \<le> hearts (run ins (startGame e0)) \<and> hearts (run ins (startGame e0)) \<le> 6 \<and>
      (hearts (run ins (startGame e0)) = 0 \<longleftrightarrow> state (run ins (startGame e0)) = GAMEOVER)"
    unfolding hearts_ok_def by (cases "state (run ins (startGame e0)) = GAMEOVER") auto
  have c: "state e = PLAYING \<and> 0 < hearts e \<and> hearts (update dt rnd e) = 0
      \<longrightarrow> state (update dt rnd e) = GAMEOVER"
    using update_lives [of e dt rnd] by auto
  have d: "state g = GAMEOVER \<and> StartGame \<notin> set later
      \<longrightarrow> state (run later g) = GAMEOVER \<and> hearts (run later g) = hearts g \<and>
          score (run later g) = score g"
    using run_game_over [of g later] by simp
  from s r c d show ?thesis by simp
qed

theorem hearts_session_witness:
  "state last_heart_engine = PLAYING \<and> hearts last_heart_engine = 1 \<and>
   hearts (update fixed_step no_rolls last_heart_engine) = 0 \<and>
   state (update fixed_step no_rolls last_heart_engine) = GAMEOVER \<and>
   StartGame \<notin> set [Update no_rolls, DoJump, PauseGame, ResumeGame] \<and>
   hearts (run [Update no_rolls, DoJump, PauseGame, ResumeGame]
            (update fixed_step no_rolls last_heart_engine)) = 0 \<and>
   score (run [Update no_rolls, DoJump, PauseGame, ResumeGame]
            (update fixed_step no_rolls last_heart_engine)) = 0 \<and>
   hearts (run [Update no_rolls] (startGame title_engine)) = 3"
proof -
  have a: "state last_heart_engine = PLAYING \<and> hearts last_heart_engine = 1 \<and>
      score last_heart_engine = 0"
    by (simp add: last_heart_engine_def sample_defs Let_def)
  have b: "hearts (update fixed_step no_rolls last_heart_engine) = 0 \<and>
      score (update fixed_step no_rolls last_heart_engine) = 0"
    by (simp add: last_heart_engine_def phase_defs sample_defs Let_def)
  have c: "hearts (run [Update no_rolls] (startGame title_engine)) = 3"
    by (simp add: run_def phase_defs sample_defs Let_def)
  from a b c
    hearts_session [of title_engine "[Update no_rolls]" last_heart_engine fixed_step no_rolls
      "update fixed_step no_rolls last_heart_engine"
      "[Update no_rolls, DoJump, PauseGame, ResumeGame]"]
  show ?thesis by simp
qed

section \<open>A pickup at the heart cap\<close>

text \<open>
  Claim C2, amended. When the heart loop runs with hearts at the cap of 6, every untaken
  pickup whose shrunk box overlaps the shrunk box of the player is consumed all the same:
  its \<open>taken\<close> flag is set and the cleanup of the same step removes it from the field.
  Hearts stay at 6 and neither \<^verbatim>\<open>onHeartsChange\<close> nor the pickup sound is issued. A step
  that does not end in game over is the cleanup of the heart loop.
\<close>

theorem pickup_at_cap:
  assumes "hearts e = 6"
  shows "heartPickups (heart_collisions e)
           = map (\<lambda>hr. if \<not> taken hr \<and> collide (shrunk (player e)) (shrunk hr)
                         then hr\<lparr>taken := True\<rparr> else hr) (heartPickups e) \<and>
         hearts (heart_collisions e) = 6 \<and>
         events (heart_collisions e) = events e \<and>
         heartPickups (cleanup (heart_collisions e))
           = filter (\<lambda>hr. \<not> taken hr \<and> \<not> collide (shrunk (player e)) (shrunk hr) \<and>
                           x hr + w hr > - 40) (heartPickups e) \<and>
         (state g = PLAYING \<and>
          obstacle_collisions (before_collisions dt rnd (advance_world dt g)) = (False, e)
            \<longrightarrow> update dt rnd g = cleanup (heart_collisions e))"
proof -
  from assms have c: "6 \<le> hearts e" by simp
  have h: "heart_collisions e =
      e\<lparr>heartPickups := map (\<lambda>hr. if \<not> taken hr \<and> collide (shrunk (player e)) (shrunk hr)
                         then hr\<lparr>taken := True\<rparr> else hr) (heartPickups e)\<rparr>"
    by (simp add: heart_collisions_def heart_loop_at_cap [OF c])
  have f: "filter (\<lambda>hr. \<not> taken hr \<and> x hr + w hr > - 40)
             (map (\<lambda>hr. if \<not> taken hr \<and> collide (shrunk (player e)) (shrunk hr)
                         then hr\<lparr>taken := True\<rparr> else hr) hrs)
           = filter (\<lambda>hr. \<not> taken hr \<and> \<not> collide (shrunk (player e)) (shrunk hr) \<and>
                           x hr + w hr > - 40) hrs" for hrs :: "HeartPickup list"
    by (induction hrs) (auto simp: shrunk_def)
  have u: "state g = PLAYING \<and>
          obstacle_collisions (before_collisions dt rnd (advance_world dt g)) = (False, e)
            \<longrightarrow> update dt rnd g = cleanup (heart_collisions e)"
    by (simp add: update_def Let_def advance_world_lives)
  from h f [of "heartPickups e"] u assms show ?thesis
    by (simp add: cleanup_def)
qed

theorem pickup_at_cap_witness:
  "hearts full_hearts_engine = 6 \<and>
   \<not> taken (heart_at 150) \<and> collide (shrunk (player full_hearts_engine)) (shrunk (heart_at 150)) \<and>
   map taken (heartPickups (heart_collisions full_hearts_engine)) = [True] \<and>
   hearts (heart_collisions full_hearts_engine) = 6 \<and>
   events (heart_collisions full_hearts_engine) = [] \<and>
   heartPickups (cleanup (heart_collisions full_hearts_engine)) = []"
proof -
  have a: "hearts full_hearts_engine = 6 \<and> events full_hearts_engine = [] \<and>
      heartPickups full_hearts_engine = [heart_at 150] \<and> \<not> taken (heart_at 150)"
    by (simp add: full_hearts_engine_def sample_defs Let_def)
  have b: "collide (shrunk (player full_hearts_engine)) (shrunk (heart_at 150))"
    by (simp add: full_hearts_engine_def sample_defs collide_def shrunk_def shrink_def Let_def)
  from a b pickup_at_cap [of full_hearts_engine]
  show ?thesis by simp
qed

text \<open>
  The claim as stated fails: one step of the sample at the cap, whose pickup overlaps the
  player after the world has moved, leaves no pickup on the field and hearts at 6.
\<close>

theorem pickup_at_cap_counterexample:
  "state full_hearts_engine = PLAYING \<and> hearts full_hearts_engine = 6 \<and>
   map taken (heartPickups full_hearts_engine) = [False] \<and>
   collide
     (shrunk (player (before_collisions fixed_step no_rolls
        (advance_world fixed_step full_hearts_engine))))
     (shrunk (hd (heartPickups (before_collisions fixed_step no_rolls
        (advance_world fixed_step full_hearts_engine))))) \<and>
   heartPickups (update fixed_step no_rolls full_hearts_engine) = [] \<and>
   hearts (update fixed_step no_rolls full_hearts_engine) = 6"
  by (simp add: full_hearts_engine_def phase_defs sample_defs Let_def)

section \<open>Scoring an obstacle\<close>

text \<open>
  Claim C3, amended. The edge of the player that counts is its left one, \<^verbatim>\<open>p.x\<close>: the test
  is \<^verbatim>\<open>p.x > o.x + o.w\<close>, on the positions after the world has moved in the step. Take an
  obstacle that the loop reaches: the loop, run on the obstacles before it in the list,
  does not end the game. (The step itself may still end in game over, at a later
  obstacle; and when it does not, every obstacle is reached.) If the obstacle has \<open>hit\<close>
  and \<open>scored\<close> false and its right edge is strictly left of the left edge of the player,
  it leaves the loop with \<open>scored\<close> true and nothing else changed. An obstacle is newly
  marked \<open>scored\<close> only under that test, and the score grows by exactly the number of
  obstacles newly marked. (Boxes have widths that are not negative.) In a step of
  \<^verbatim>\<open>update\<close> the loop runs on the engine \<open>before_collisions \<dots>\<close>; the step keeps the score
  of the loop, and its obstacles are those of the loop, as they are after a game over and
  filtered by the cleanup otherwise.
\<close>

theorem obstacle_scored_when_passed:
  assumes "obstacle_collisions e = (ret, e1)"
    and "i < length (obstacles e)"
    and "fst (obstacle_loop e (take i (obstacles e))) = False"
    and "\<not> hit (obstacles e ! i)" and "\<not> scored (obstacles e ! i)"
    and "x (obstacles e ! i) + w (obstacles e ! i) < x (player e)"
    and "0 \<le> w (player e)" and "0 \<le> w (obstacles e ! i)"
  shows "obstacles e1 ! i = (obstacles e ! i)\<lparr>scored := True\<rparr> \<and>
         score e1 = score e + int (length (filter scored (obstacles e1)))
                      - int (length (filter scored (obstacles e))) \<and>
         list_all2 (\<lambda>ob ob1. scored ob1 \<and> \<not> scored ob \<longrightarrow> \<not> hit ob1 \<and> x ob + w ob < x (player e))
           (obstacles e) (obstacles e1) \<and>
         (\<not> ret \<longrightarrow> fst (obstacle_loop e (take j (obstacles e))) = False) \<and>
         (state g = PLAYING \<and> e = before_collisions dt rnd (advance_world dt g) \<longrightarrow>
            score (update dt rnd g) = score e1 \<and>
            obstacles (update dt rnd g)
              = (if ret then obstacles e1
                 else filter (\<lambda>ob. \<not> remove ob \<and> x ob + w ob > - 40) (obstacles e1)))"
proof -
  obtain r2 e2 obs2 where l: "obstacle_loop e (obstacles e) = (r2, e2, obs2)"
    by (cases "obstacle_loop e (obstacles e)") auto
  with assms(1) have eq: "r2 = ret" "e1 = e2\<lparr>obstacles := obs2\<rparr>"
    by (simp_all add: obstacle_collisions_def)
  from obstacle_loop_reached [OF l assms(2,3,4,6,7,8)] eq
  have a: "obstacles e1 ! i = (obstacles e ! i)\<lparr>scored := True\<rparr>" by simp
  from obstacle_loop_score [OF l] eq
  have b: "score e1 = score e + int (length (filter scored (obstacles e1)))
                      - int (length (filter scored (obstacles e)))" by simp
  from obstacle_loop_newly_scored [OF l] eq
  have c: "list_all2 (\<lambda>ob ob1. scored ob1 \<and> \<not> scored ob \<longrightarrow> \<not> hit ob1 \<and> x ob + w ob < x (player e))
           (obstacles e) (obstacles e1)" by simp
  have p: "\<not> ret \<longrightarrow> fst (obstacle_loop e (take j (obstacles e))) = False"
  proof
    assume "\<not> ret"
    with l eq have "obstacle_loop e (obstacles e) = (False, e2, obs2)" by simp
    then show "fst (obstacle_loop e (take j (obstacles e))) = False"
      by (rule obstacle_loop_prefix)
  qed
  have d: "state g = PLAYING \<and> e = before_collisions dt rnd (advance_world dt g) \<longrightarrow>
            score (update dt rnd g) = score e1 \<and>
            obstacles (update dt rnd g)
              = (if ret then obstacles e1
                 else filter (\<lambda>ob. \<not> remove ob \<and> x ob + w ob > - 40) (obstacles e1))"
    using update_after_any_loop [of g dt rnd ret e1] assms(1) by auto
  from a b c p d show ?thesis by simp
qed

theorem obstacle_scored_when_passed_witness:
  "fst (obstacle_collisions mixed_engine) = False \<and>
   (1::nat) < length (obstacles mixed_engine) \<and>
   fst (obstacle_loop mixed_engine (take 1 (obstacles mixed_engine))) = False \<and>
   obstacles mixed_engine ! 1 = small_mushroom 50 \<and>
   x (small_mushroom 50) + w (small_mushroom 50) < x (player mixed_engine) \<and>
   obstacles (snd (obstacle_collisions mixed_engine)) ! 1 = (small_mushroom 50)\<lparr>scored := True\<rparr> \<and>
   score mixed_engine = 0 \<and> score (snd (obstacle_collisions mixed_engine)) = 1 \<and>
   fst (obstacle_collisions fatal_engine) = True \<and>
   state (snd (obstacle_collisions fatal_engine)) = GAMEOVER \<and>
   (0::nat) < length (obstacles fatal_engine) \<and>
   fst (obstacle_loop fatal_engine (take 0 (obstacles fatal_engine))) = False \<and>
   obstacles fatal_engine ! 0 = small_mushroom 50 \<and>
   x (small_mushroom 50) + w (small_mushroom 50) < x (player fatal_engine) \<and>
   obstacles (snd (obstacle_collisions fatal_engine)) ! 0 = (small_mushroom 50)\<lparr>scored := True\<rparr> \<and>
   score fatal_engine = 0 \<and> score (snd (obstacle_collisions fatal_engine)) = 1 \<and>
   events (snd (obstacle_collisions fatal_engine))
     = [OnScore 1, OnHeartsChange 0, PlaySfx SfxHit, OnGameOver 1]"
proof -
  have a: "obstacles mixed_engine = [small_mushroom 150, small_mushroom 50] \<and>
      x (player mixed_engine) = 140 \<and> w (player mixed_engine) = 48 \<and> score mixed_engine = 0 \<and>
      obstacles fatal_engine = [small_mushroom 50, small_mushroom 150] \<and>
      x (player fatal_engine) = 140 \<and> w (player fatal_engine) = 48 \<and> score fatal_engine = 0"
    by (simp add: mixed_engine_def fatal_engine_def sample_defs Let_def)
  have b: "\<not> hit (small_mushroom 50) \<and> \<not> scored (small_mushroom 50) \<and>
      x (small_mushroom 50) = 50 \<and> w (small_mushroom 50) = 52"
    by (simp add: small_mushroom_def)
  have c: "fst (obstacle_collisions mixed_engine) = False \<and>
      score (snd (obstacle_collisions mixed_engine)) = 1"
    by (simp add: mixed_engine_def phase_defs sample_defs Let_def)
  have c1: "fst (obstacle_loop mixed_engine (take 1 (obstacles mixed_engine))) = False"
    by (simp add: mixed_engine_def phase_defs sample_defs Let_def)
  have d: "fst (obstacle_collisions fatal_engine) = True \<and>
      state (snd (obstacle_collisions fatal_engine)) = GAMEOVER \<and>
      score (snd (obstacle_collisions fatal_engine)) = 1 \<and>
      events (snd (obstacle_collisions fatal_engine))
        = [OnScore 1, OnHeartsChange 0, PlaySfx SfxHit, OnGameOver 1]"
    by (simp add: fatal_engine_def phase_defs sample_defs Let_def)
  have d1: "fst (obstacle_loop fatal_engine (take 0 (obstacles fatal_engine))) = False"
    by simp
  have m: "obstacle_collisions mixed_engine
           = (fst (obstacle_collisions mixed_engine), snd (obstacle_collisions mixed_engine))"
    by simp
  have f: "obstacle_collisions fatal_engine
           = (fst (obstacle_collisions fatal_engine), snd (obstacle_collisions fatal_engine))"
    by simp
  from a b c1 obstacle_scored_when_passed [OF m, of 1]
  have r1: "obstacles (snd (obstacle_collisions mixed_engine)) ! 1
        = (small_mushroom 50)\<lparr>scored := True\<rparr>"
    by simp
  from a b d1 obstacle_scored_when_passed [OF f, of 0]
  have r2: "obstacles (snd (obstacle_collisions fatal_engine)) ! 0
        = (small_mushroom 50)\<lparr>scored := True\<rparr>"
    by simp
  from a b c c1 d d1 r1 r2 show ?thesis by simp
qed

text \<open>
  The claim as stated fails for the right edge of the player. In the sample the right edge
  of the player (188) is not yet past the right edge of the mushroom (189); in the step the
  mushroom moves and its right edge falls behind 188, with no collision, the player being
  in the air. The left edge of the player (140) has not passed it, and the step leaves
  the mushroom unscored and the score at 0.
\<close>

theorem right_edge_counterexample:
  "state jumping_engine = PLAYING \<and>
   map hit (obstacles jumping_engine) = [False] \<and>
   map scored (obstacles jumping_engine) = [False] \<and>
   x (player jumping_engine) + w (player jumping_engine)
     \<le> x (hd (obstacles jumping_engine)) + w (hd (obstacles jumping_engine)) \<and>
   x (hd (obstacles (before_collisions fixed_step no_rolls
        (advance_world fixed_step jumping_engine))))
     + w (hd (obstacles (before_collisions fixed_step no_rolls
        (advance_world fixed_step jumping_engine))))
     < x (player (before_collisions fixed_step no_rolls
        (advance_world fixed_step jumping_engine)))
       + w (player (before_collisions fixed_step no_rolls
        (advance_world fixed_step jumping_engine))) \<and>
   obstacles (update fixed_step no_rolls jumping_engine) = [small_mushroom (118049 / 900)] \<and>
   score jumping_engine = 0 \<and>
   score (update fixed_step no_rolls jumping_engine) = 0"
  by (simp add: jumping_engine_def phase_defs sample_defs Let_def)

section \<open>Hit and scored exclude each other\<close>

text \<open>
  Claim C4. Take a viewport whose height is not negative. Every state reached from
  \<^verbatim>\<open>startGame\<close> by a run of calls satisfies \<open>flags_ok\<close>, and in a state that satisfies it no
  obstacle of the list has both \<open>hit\<close> and \<open>scored\<close> set. A step keeps \<open>flags_ok\<close>. Inside
  the step, the obstacle loop takes each obstacle of the moved list to one that does not
  have both flags, that is still \<open>scored\<close> and not \<open>hit\<close> if it was scored, and still
  \<open>hit\<close> and not \<open>scored\<close> if it was hit; this is the list the cleanup then destroys
  obstacles from. So from spawn (both flags false) to destruction an obstacle never
  carries both flags.
\<close>

theorem hit_scored_exclusive:
  assumes "0 \<le> u e0" and "0 \<le> size_h e0" and "\<forall>i \<in> set ins. resize_ok i" and "0 \<le> dt"
  shows "flags_ok (run ins (startGame e0)) \<and>
         (flags_ok e \<longrightarrow>
            (\<forall>ob \<in> set (obstacles e). \<not> (hit ob \<and> scored ob)) \<and>
            flags_ok (update dt rnd e) \<and>
            list_all2 (\<lambda>ob ob1. \<not> (hit ob1 \<and> scored ob1) \<and>
                                 (scored ob \<longrightarrow> scored ob1 \<and> \<not> hit ob1) \<and>
                                 (hit ob \<longrightarrow> hit ob1 \<and> \<not> scored ob1))
              (obstacles (before_collisions dt rnd (advance_world dt e)))
              (obstacles (snd (obstacle_collisions
                 (before_collisions dt rnd (advance_world dt e))))))"
proof -
  have a: "flags_ok (run ins (startGame e0))"
    using assms(1-3) by (simp add: run_flags_ok startGame_flags_ok)
  have b: "flags_ok e \<longrightarrow>
            (\<forall>ob \<in> set (obstacles e). \<not> (hit ob \<and> scored ob)) \<and>
            flags_ok (update dt rnd e) \<and>
            list_all2 (\<lambda>ob ob1. \<not> (hit ob1 \<and> scored ob1) \<and>
                                 (scored ob \<longrightarrow> scored ob1 \<and> \<not> hit ob1) \<and>
                                 (hit ob \<longrightarrow> hit ob1 \<and> \<not> scored ob1))
              (obstacles (before_collisions dt rnd (advance_world dt e)))
              (obstacles (snd (obstacle_collisions
                 (before_collisions dt rnd (advance_world dt e)))))"
  proof
    assume f: "flags_ok e"
    let ?b = "before_collisions dt rnd (advance_world dt e)"
    have c: "obstacle_collisions ?b = (fst (obstacle_collisions ?b), snd (obstacle_collisions ?b))"
      by simp
    from f have "\<forall>ob \<in> set (obstacles e). \<not> (hit ob \<and> scored ob)"
      by (auto simp: flags_ok_def ob_ok_def)
    moreover note update_flags_ok [OF assms(4) f, of rnd]
    moreover note obstacle_collisions_flags_ok [OF c before_collisions_flags_ok [OF assms(4) f]]
    ultimately show "(\<forall>ob \<in> set (obstacles e). \<not> (hit ob \<and> scored ob)) \<and>
            flags_ok (update dt rnd e) \<and>
            list_all2 (\<lambda>ob ob1. \<not> (hit ob1 \<and> scored ob1) \<and>
                                 (scored ob \<longrightarrow> scored ob1 \<and> \<not> hit ob1) \<and>
                                 (hit ob \<longrightarrow> hit ob1 \<and> \<not> scored ob1))
              (obstacles ?b) (obstacles (snd (obstacle_collisions ?b)))"
      by simp
  qed
  from a b show ?thesis by simp
qed

theorem hit_scored_exclusive_witness:
  "0 \<le> u title_engine \<and> 0 \<le> size_h title_engine \<and>
   resize_ok (Update no_rolls) \<and> resize_ok (HandleResize 800 600 True []) \<and>
   resize_ok DoJump \<and> (0::real) \<le> fixed_step \<and>
   map (\<lambda>ob. (hit ob, scored ob)) (obstacles mixed_engine) = [(False, False), (False, False)] \<and>
   map (\<lambda>ob. (hit ob, scored ob))
     (obstacles (snd (obstacle_collisions
        (before_collisions fixed_step no_rolls (advance_world fixed_step mixed_engine)))))
     = [(True, False), (False, True)] \<and>
   map (\<lambda>ob. (hit ob, scored ob)) (obstacles (update fixed_step no_rolls mixed_engine))
     = [(False, True)]"
proof -
  have a: "0 \<le> u title_engine \<and> 0 \<le> size_h title_engine \<and>
      resize_ok (Update no_rolls) \<and> resize_ok (HandleResize 800 600 True []) \<and>
      resize_ok DoJump \<and> (0::real) \<le> fixed_step"
    by (simp add: title_engine_def resize_ok_def fixed_step_def)
  have b: "flags_ok mixed_engine \<and>
      map (\<lambda>ob. (hit ob, scored ob)) (obstacles mixed_engine) = [(False, False), (False, False)]"
    by (simp add: flags_ok_def scales_ok_def ob_ok_def mixed_engine_def sample_defs Let_def)
  have c: "map (\<lambda>ob. (hit ob, scored ob))
     (obstacles (snd (obstacle_collisions
        (before_collisions fixed_step no_rolls (advance_world fixed_step mixed_engine)))))
     = [(True, False), (False, True)]"
    by (simp add: mixed_engine_def phase_defs sample_defs Let_def)
  have d: "map (\<lambda>ob. (hit ob, scored ob)) (obstacles (update fixed_step no_rolls mixed_engine))
     = [(False, True)]"
    by (simp add: mixed_engine_def phase_defs sample_defs Let_def)
  from a b c d
    hit_scored_exclusive [of title_engine "[Update no_rolls, HandleResize 800 600 True [], DoJump]"
      fixed_step mixed_engine no_rolls]
  show ?thesis by simp
qed

section \<open>Jumping\<close>

text \<open>
  Claim C5. In \<open>PLAYING\<close> a jump request is honoured exactly when \<open>jumpsRemaining > 0\<close>:
  then \<^verbatim>\<open>doJump\<close> sets \<open>vy\<close> to \<open>JUMP_V\<close>, clears \<open>onGround\<close>, lowers \<open>jumpsRemaining\<close> by 1
  (and plays the jump sound); otherwise, and in every other state, it changes nothing.
  A step of \<^verbatim>\<open>update\<close> changes \<open>jumpsRemaining\<close> only by setting it to 2, and only in the
  step where \<open>onGround\<close> goes from false to true; that happens in \<open>PLAYING\<close>, at the ground
  clamp, where the player is put on the ground line with \<open>vy = 0\<close>.
\<close>

theorem double_jump:
  "(state e = PLAYING \<longrightarrow>
      doJump e =
        (if 0 < jumpsRemaining (player e)
         then e\<lparr>player := (player e)\<lparr>vy := JUMP_V e, onGround := False,
                                      jumpsRemaining := jumpsRemaining (player e) - 1\<rparr>,
                events := events e @ [PlaySfx SfxJump]\<rparr>
         else e)) \<and>
   (state e \<noteq> PLAYING \<longrightarrow> doJump e = e) \<and>
   jumpsRemaining (player (update dt rnd e))
     = (if \<not> onGround (player e) \<and> onGround (player (update dt rnd e)) then 2
        else jumpsRemaining (player e)) \<and>
   (\<not> onGround (player e) \<and> onGround (player (update dt rnd e)) \<longrightarrow>
      state e = PLAYING \<and> y (player (update dt rnd e)) = groundY e - h (player e) \<and>
      vy (player (update dt rnd e)) = 0 \<and>
      groundY e - h (player e) \<le> y (player e) + (vy (player e) + G e * dt) * dt)"
proof -
  have a: "state e = PLAYING \<longrightarrow>
      doJump e =
        (if 0 < jumpsRemaining (player e)
         then e\<lparr>player := (player e)\<lparr>vy := JUMP_V e, onGround := False,
                                      jumpsRemaining := jumpsRemaining (player e) - 1\<rparr>,
                events := events e @ [PlaySfx SfxJump]\<rparr>
         else e)"
    by (simp add: doJump_def emit_def Let_def)
  have b: "state e \<noteq> PLAYING \<longrightarrow> doJump e = e"
    by (simp add: doJump_def)
  have c: "jumpsRemaining (player (update dt rnd e))
     = (if \<not> onGround (player e) \<and> onGround (player (update dt rnd e)) then 2
        else jumpsRemaining (player e)) \<and>
   (\<not> onGround (player e) \<and> onGround (player (update dt rnd e)) \<longrightarrow>
      state e = PLAYING \<and> y (player (update dt rnd e)) = groundY e - h (player e) \<and>
      vy (player (update dt rnd e)) = 0 \<and>
      groundY e - h (player e) \<le> y (player e) + (vy (player e) + G e * dt) * dt)"
  proof (cases "state e = PLAYING")
    case True
    from update_player_fields [OF True, of dt rnd] player_physics_landing [of dt e] True
    show ?thesis by simp
  next
    case False
    then show ?thesis by (simp add: update_keeps_player_outside)
  qed
  from a b c show ?thesis by simp
qed

theorem double_jump_witness:
  "state playing_engine = PLAYING \<and> jumpsRemaining (player playing_engine) = 2 \<and>
   vy (player (doJump playing_engine)) = - 900 \<and>
   \<not> onGround (player (doJump playing_engine)) \<and>
   jumpsRemaining (player (doJump playing_engine)) = 1 \<and>
   jumpsRemaining (player (doJump (doJump playing_engine))) = 0 \<and>
   doJump (doJump (doJump playing_engine)) = doJump (doJump playing_engine) \<and>
   state title_engine \<noteq> PLAYING \<and> doJump title_engine = title_engine \<and>
   \<not> onGround (player landing_engine) \<and> jumpsRemaining (player landing_engine) = 0 \<and>
   onGround (player (update fixed_step no_rolls landing_engine)) \<and>
   jumpsRemaining (player (update fixed_step no_rolls landing_engine)) = 2 \<and>
   y (player (update fixed_step no_rolls landing_engine)) = 412"
proof -
  have a: "state playing_engine = PLAYING \<and> jumpsRemaining (player playing_engine) = 2 \<and>
      JUMP_V playing_engine = - 900 \<and> state title_engine \<noteq> PLAYING \<and>
      \<not> onGround (player landing_engine) \<and> jumpsRemaining (player landing_engine) = 0 \<and>
      groundY landing_engine = 476 \<and> h (player landing_engine) = 64"
    by (simp add: landing_engine_def sample_defs Let_def)
  have b: "state (doJump playing_engine) = PLAYING \<and>
      jumpsRemaining (player (doJump playing_engine)) = 1 \<and>
      state (doJump (doJump playing_engine)) = PLAYING \<and>
      jumpsRemaining (player (doJump (doJump playing_engine))) = 0"
    by (simp add: doJump_def emit_def sample_defs Let_def)
  have c: "onGround (player (update fixed_step no_rolls landing_engine))"
    by (simp add: landing_engine_def phase_defs sample_defs Let_def)
  from a b c double_jump [of playing_engine fixed_step no_rolls]
    double_jump [of "doJump playing_engine" fixed_step no_rolls]
    double_jump [of "doJump (doJump playing_engine)" fixed_step no_rolls]
    double_jump [of title_engine fixed_step no_rolls]
    double_jump [of landing_engine fixed_step no_rolls]
  show ?thesis by simp
qed

section \<open>The hit cooldown\<close>

text \<open>
  Claim C6, amended. The timer is written only by a step taken in \<open>PLAYING\<close>: \<^verbatim>\<open>update\<close>
  returns before the line that decays it in \<open>TITLE\<close>, \<open>PAUSED\<close> and \<open>GAMEOVER\<close>, and the
  timer keeps its value there. A step in \<open>PLAYING\<close> first lowers it to
  \<open>max 0 (hitCooldown - dt)\<close>. When no hit registers in the step the timer ends the step
  at that value; a hit registers only when that value is 0, and then the timer ends the step
  at \<open>HIT_BUFFER\<close>. So while the lowered timer is still positive, the step registers no hit:
  no hit sound, no heart lost, no game over.
\<close>

theorem hit_cooldown_step:
  assumes "0 < HIT_BUFFER e"
  shows "(state e \<noteq> PLAYING \<longrightarrow>
            hitCooldown (player (update dt rnd e)) = hitCooldown (player e)) \<and>
         (state e = PLAYING \<longrightarrow>
            (count_list (events (update dt rnd e)) (PlaySfx SfxHit)
               = count_list (events e) (PlaySfx SfxHit) \<and>
             hitCooldown (player (update dt rnd e)) = max 0 (hitCooldown (player e) - dt) \<and>
             hearts e \<le> hearts (update dt rnd e) \<and> state (update dt rnd e) = PLAYING) \<or>
            (count_list (events (update dt rnd e)) (PlaySfx SfxHit)
               = count_list (events e) (PlaySfx SfxHit) + 1 \<and>
             max 0 (hitCooldown (player e) - dt) = 0 \<and>
             hitCooldown (player (update dt rnd e)) = HIT_BUFFER e))"
proof -
  have a: "state e \<noteq> PLAYING \<longrightarrow>
            hitCooldown (player (update dt rnd e)) = hitCooldown (player e)"
    by (simp add: update_def Let_def advance_world_lives advance_world_keeps)
  have b: "state e = PLAYING \<longrightarrow>
            (count_list (events (update dt rnd e)) (PlaySfx SfxHit)
               = count_list (events e) (PlaySfx SfxHit) \<and>
             hitCooldown (player (update dt rnd e)) = max 0 (hitCooldown (player e) - dt) \<and>
             hearts e \<le> hearts (update dt rnd e) \<and> state (update dt rnd e) = PLAYING) \<or>
            (count_list (events (update dt rnd e)) (PlaySfx SfxHit)
               = count_list (events e) (PlaySfx SfxHit) + 1 \<and>
             max 0 (hitCooldown (player e) - dt) = 0 \<and>
             hitCooldown (player (update dt rnd e)) = HIT_BUFFER e)"
  proof
    assume p: "state e = PLAYING"
    from update_one_hit [OF p assms, of dt rnd]
    show "(count_list (events (update dt rnd e)) (PlaySfx SfxHit)
               = count_list (events e) (PlaySfx SfxHit) \<and>
             hitCooldown (player (update dt rnd e)) = max 0 (hitCooldown (player e) - dt) \<and>
             hearts e \<le> hearts (update dt rnd e) \<and> state (update dt rnd e) = PLAYING) \<or>
            (count_list (events (update dt rnd e)) (PlaySfx SfxHit)
               = count_list (events e) (PlaySfx SfxHit) + 1 \<and>
             max 0 (hitCooldown (player e) - dt) = 0 \<and>
             hitCooldown (player (update dt rnd e)) = HIT_BUFFER e)"
      by auto
  qed
  from a b show ?thesis by simp
qed

theorem hit_cooldown_step_witness:
  "0 < HIT_BUFFER hurt_engine \<and> state hurt_engine = PLAYING \<and>
   state hurt_paused_engine \<noteq> PLAYING \<and>
   hitCooldown (player (update fixed_step no_rolls hurt_paused_engine)) = 3 / 5 \<and>
   hitCooldown (player (update fixed_step no_rolls hurt_engine)) = 7 / 12 \<and>
   hearts (update fixed_step no_rolls hurt_engine) = 2 \<and>
   count_list (events (update fixed_step no_rolls hurt_engine)) (PlaySfx SfxHit) = 0"
proof -
  have a: "0 < HIT_BUFFER hurt_engine \<and> state hurt_engine = PLAYING \<and>
      HIT_BUFFER hurt_paused_engine = 3 / 5 \<and>
      state hurt_paused_engine = PAUSED \<and> hitCooldown (player hurt_paused_engine) = 3 / 5 \<and>
      hitCooldown (player hurt_engine) = 3 / 5 \<and> events hurt_engine = [] \<and>
      hearts hurt_engine = 2"
    by (simp add: hurt_paused_engine_def pauseGame_def hurt_engine_def sample_defs Let_def)
  have b: "hearts (update fixed_step no_rolls hurt_engine) = 2"
    by (simp add: hurt_engine_def phase_defs sample_defs Let_def)
  from a b hit_cooldown_step [of hurt_engine fixed_step no_rolls]
    hit_cooldown_step [of hurt_paused_engine fixed_step no_rolls]
  show ?thesis by (auto simp: fixed_step_def)
qed

text \<open>
  The claim as stated fails in \<open>PAUSED\<close>: the timer of the paused sample stays at 0.6 over a
  step, where decay by \<open>dt\<close> would give \<open>0.6 - 1/60\<close>.
\<close>

theorem hit_cooldown_paused_counterexample:
  "state hurt_paused_engine = PAUSED \<and>
   hitCooldown (player hurt_paused_engine) = 3 / 5 \<and>
   hitCooldown (player (update (1 / 60) no_rolls hurt_paused_engine)) = 3 / 5 \<and>
   hitCooldown (player (update (1 / 60) no_rolls hurt_paused_engine))
     \<noteq> max 0 (hitCooldown (player hurt_paused_engine) - 1 / 60)"
  by (simp add: hurt_paused_engine_def pauseGame_def hurt_engine_def phase_defs sample_defs
      Let_def)

section \<open>Obstacle spawning and the spacing tracker\<close>

text \<open>
  Claim C7, amended. In a step taken in \<open>PLAYING\<close>, with the timer advanced by \<open>dt\<close> and the
  speed already ramped to \<open>350 + (difficultySeconds + dt) * 4\<close>:
  \<^item> when the timer has reached the interval and the spacing guard fails, no obstacle is
    added (the obstacles before the collision loops are the old ones, moved) and the timer
    is set to \<open>obsInterval * 0.7\<close>;
  \<^item> when the guard passes, one obstacle is added at \<open>size_w + 40 * u\<close>, the tracker is
    set to that \<open>x\<close>, and the timer to 0;
  \<^item> when the timer has not reached the interval, nothing is added and the tracker goes
    down by \<open>speed * dt\<close>.
  The decrement is the \<^verbatim>\<open>else\<close> branch of the timer test (line 673); the claim's "every step
  where the tracker is not reset" is narrowed to the steps of that branch.
\<close>

theorem spawn_spacing:
  assumes "state e = PLAYING"
  shows "(obsInterval e \<le> obsTimer e + dt \<and> \<not> lastObstacleX e < size_w e - minGapPx e \<longrightarrow>
            obstacles (before_collisions dt rnd (advance_world dt e))
              = map (\<lambda>ob. ob\<lparr>x := x ob - (350 + (difficultySeconds e + dt) * 4) * dt\<rparr>)
                  (obstacles e) \<and>
            obsTimer (update dt rnd e) = obsInterval e * 0.7 \<and>
            obsInterval (update dt rnd e) = obsInterval e) \<and>
         (obsInterval e \<le> obsTimer e + dt \<and> lastObstacleX e < size_w e - minGapPx e \<longrightarrow>
            (\<exists>ob. obstacles (before_collisions dt rnd (advance_world dt e))
                     = map (\<lambda>ob. ob\<lparr>x := x ob - (350 + (difficultySeconds e + dt) * 4) * dt\<rparr>)
                         (obstacles e @ [ob]) \<and>
                   x ob = size_w e + 40 * u e \<and> \<not> hit ob \<and> \<not> scored ob) \<and>
            lastObstacleX (update dt rnd e) = size_w e + 40 * u e \<and>
            obsTimer (update dt rnd e) = 0) \<and>
         (obsTimer e + dt < obsInterval e \<longrightarrow>
            obstacles (before_collisions dt rnd (advance_world dt e))
              = map (\<lambda>ob. ob\<lparr>x := x ob - (350 + (difficultySeconds e + dt) * 4) * dt\<rparr>)
                  (obstacles e) \<and>
            lastObstacleX (update dt rnd e)
              = lastObstacleX e - (350 + (difficultySeconds e + dt) * 4) * dt \<and>
            obsTimer (update dt rnd e) = obsTimer e + dt \<and>
            obsInterval (update dt rnd e) = obsInterval e)"
proof -
  let ?s = "player_physics dt (ramp_difficulty dt (advance_world dt e))"
  let ?b = "before_collisions dt rnd (advance_world dt e)"
  let ?mv = "\<lambda>ob::Obstacle. ob\<lparr>x := x ob - (350 + (difficultySeconds e + dt) * 4) * dt\<rparr>"
  note i = spawn_inputs [of dt e]
  note a = after_spawn [of dt rnd "spawn_obstacle dt rnd ?s"]
  note f = update_spawn_fields [OF assms, of dt rnd]
  have b: "?b = move_world dt (spawn_heart dt rnd (spawn_obstacle dt rnd ?s))"
    by (simp add: before_collisions_def)
  have blocked: "obstacles ?b = map ?mv (obstacles e) \<and>
            obsTimer (update dt rnd e) = obsInterval e * 0.7 \<and>
            obsInterval (update dt rnd e) = obsInterval e"
    if "obsInterval e \<le> obsTimer e + dt" "\<not> lastObstacleX e < size_w e - minGapPx e"
  proof -
    from that i have "spawn_obstacle dt rnd ?s = ?s\<lparr>obsTimer := obsInterval ?s * 0.7\<rparr>"
      by (intro spawn_obstacle_blocked) simp_all
    with a b f i show ?thesis by simp
  qed
  have placed: "(\<exists>ob. obstacles ?b = map ?mv (obstacles e @ [ob]) \<and>
                   x ob = size_w e + 40 * u e \<and> \<not> hit ob \<and> \<not> scored ob) \<and>
            lastObstacleX (update dt rnd e) = size_w e + 40 * u e \<and>
            obsTimer (update dt rnd e) = 0"
    if "obsInterval e \<le> obsTimer e + dt" "lastObstacleX e < size_w e - minGapPx e"
  proof -
    from that i have "obsInterval ?s \<le> obsTimer ?s + dt"
      "lastObstacleX ?s < size_w ?s - minGapPx ?s" by simp_all
    from spawn_obstacle_placed [OF this, of rnd] obtain ob where
      o: "obstacles (spawn_obstacle dt rnd ?s) = obstacles ?s @ [ob]"
        "x ob = size_w ?s + 40 * u ?s" "\<not> hit ob" "\<not> scored ob"
      and k: "obsTimer (spawn_obstacle dt rnd ?s) = 0"
        "lastObstacleX (spawn_obstacle dt rnd ?s) = size_w ?s + 40 * u ?s"
        "speed (spawn_obstacle dt rnd ?s) = speed ?s"
      by auto
    from o a b i k have "obstacles ?b = map ?mv (obstacles e @ [ob]) \<and>
                   x ob = size_w e + 40 * u e \<and> \<not> hit ob \<and> \<not> scored ob"
      by simp
    then have "\<exists>ob. obstacles ?b = map ?mv (obstacles e @ [ob]) \<and>
                   x ob = size_w e + 40 * u e \<and> \<not> hit ob \<and> \<not> scored ob" ..
    with k a b f i show ?thesis by simp
  qed
  have waiting: "obstacles ?b = map ?mv (obstacles e) \<and>
            lastObstacleX (update dt rnd e)
              = lastObstacleX e - (350 + (difficultySeconds e + dt) * 4) * dt \<and>
            obsTimer (update dt rnd e) = obsTimer e + dt \<and>
            obsInterval (update dt rnd e) = obsInterval e"
    if "obsTimer e + dt < obsInterval e"
  proof -
    from that i have "obsTimer ?s + dt < obsInterval ?s" by simp
    from spawn_obstacle_waiting [OF this, of rnd] a b f i show ?thesis by simp
  qed
  from blocked placed waiting show ?thesis by blast
qed

theorem spawn_spacing_witness:
  "state crowded_engine = PLAYING \<and>
   obsInterval crowded_engine \<le> obsTimer crowded_engine + fixed_step \<and>
   \<not> lastObstacleX crowded_engine < size_w crowded_engine - minGapPx crowded_engine \<and>
   obsTimer (update fixed_step no_rolls crowded_engine) = 147 / 100 \<and>
   lastObstacleX (crowded_engine\<lparr>lastObstacleX := 2700\<rparr>)
     < size_w crowded_engine - minGapPx crowded_engine \<and>
   lastObstacleX (update fixed_step no_rolls (crowded_engine\<lparr>lastObstacleX := 2700\<rparr>)) = 4000 \<and>
   obsTimer (update fixed_step no_rolls (crowded_engine\<lparr>lastObstacleX := 2700\<rparr>)) = 0 \<and>
   state playing_engine = PLAYING \<and>
   obsTimer playing_engine + fixed_step < obsInterval playing_engine \<and>
   lastObstacleX (update fixed_step no_rolls playing_engine) = 960 - (350 + 1 / 15) / 60"
proof -
  have a: "state crowded_engine = PLAYING \<and> obsInterval crowded_engine = 21 / 10 \<and>
      obsTimer crowded_engine = 209 / 100 \<and> lastObstacleX crowded_engine = 3100 \<and>
      size_w crowded_engine = 3840 \<and> minGapPx crowded_engine = 1120 \<and> u crowded_engine = 4"
    by (simp add: crowded_engine_def)
  have b: "state playing_engine = PLAYING \<and> obsTimer playing_engine = 0 \<and>
      obsInterval playing_engine = 21 / 10 \<and> lastObstacleX playing_engine = 960 \<and>
      difficultySeconds playing_engine = 0"
    by (simp add: sample_defs Let_def)
  from a b spawn_spacing [of crowded_engine fixed_step no_rolls]
    spawn_spacing [of "crowded_engine\<lparr>lastObstacleX := 2700\<rparr>" fixed_step no_rolls]
    spawn_spacing [of playing_engine fixed_step no_rolls]
  show ?thesis by (simp add: fixed_step_def)
qed

text \<open>
  The claim as stated fails on a step where the guard fails: nothing is spawned, the
  tracker is not reset, and it does not go down by \<open>speed * dt\<close> either; it keeps its value.
\<close>

theorem tracker_stalls_counterexample:
  "state crowded_engine = PLAYING \<and>
   obsInterval crowded_engine \<le> obsTimer crowded_engine + 1 / 60 \<and>
   \<not> lastObstacleX crowded_engine < size_w crowded_engine - minGapPx crowded_engine \<and>
   obstacles (update (1 / 60) no_rolls crowded_engine) = [] \<and>
   lastObstacleX (update (1 / 60) no_rolls crowded_engine) = lastObstacleX crowded_engine \<and>
   0 < speed (update (1 / 60) no_rolls crowded_engine) * (1 / 60) \<and>
   lastObstacleX (update (1 / 60) no_rolls crowded_engine)
     \<noteq> lastObstacleX crowded_engine - speed (update (1 / 60) no_rolls crowded_engine) * (1 / 60)"
  by (simp add: crowded_engine_def phase_defs no_rolls_def Let_def)

section \<open>The stepper\<close>

text \<open>
  Claim C8. Take a frame callback that finds the game record and the drawing context in
  place. It clamps the time since the previous callback to at most 0.05 s and adds it to
  the accumulator; with \<open>a\<close> the accumulator after that and \<open>n\<close> the whole number of
  sixtieths of a second in \<open>a\<close>, it calls \<^verbatim>\<open>update\<close> exactly \<open>n\<close> times, each with \<open>dt = 1/60\<close>,
  then \<^verbatim>\<open>draw\<close> once, and makes no other call; the accumulator is left at \<open>a - n/60\<close>,
  which is below one step, and the timestamp at the current time.
\<close>

theorem tick_fixed_step:
  assumes "ready"
  shows "tick now rnds ready (st, e) =
           ((st\<lparr>timestamp := now,
                accum := accum st + min (now - timestamp st) 0.05
                  - real (nat \<lfloor>(accum st + min (now - timestamp st) 0.05) * 60\<rfloor>) * (1 / 60)\<rparr>,
             fold (\<lambda>j. update (1 / 60) (rnds j))
               [0 ..< nat \<lfloor>(accum st + min (now - timestamp st) 0.05) * 60\<rfloor>] e),
            replicate (nat \<lfloor>(accum st + min (now - timestamp st) 0.05) * 60\<rfloor>)
              (CallUpdate (1 / 60)) @ [CallDraw]) \<and>
         min (now - timestamp st) 0.05 \<le> 0.05 \<and>
         accum st + min (now - timestamp st) 0.05
           - real (nat \<lfloor>(accum st + min (now - timestamp st) 0.05) * 60\<rfloor>) * (1 / 60) < 1 / 60"
proof -
  let ?a = "accum st + min (now - timestamp st) 0.05"
  let ?n = "nat \<lfloor>?a * 60\<rfloor>"
  have t: "tick now rnds ready (st, e) =
          (case drain rnds 0 ?a e [] of
             (acc, e1, calls) \<Rightarrow> ((st\<lparr>timestamp := now, accum := acc\<rparr>, e1), calls @ [CallDraw]))"
    using assms by (simp add: tick_def Let_def)
  have d: "drain rnds 0 ?a e [] =
          (?a - real ?n * fixed_step, fold (\<lambda>j. update fixed_step (rnds j)) [0 ..< ?n] e,
           replicate ?n (CallUpdate fixed_step))"
    using drain_steps [of rnds 0 ?a e "[]"] by (simp only: add_0 append_Nil)
  have "tick now rnds ready (st, e) =
           ((st\<lparr>timestamp := now, accum := ?a - real ?n * (1 / 60)\<rparr>,
             fold (\<lambda>j. update (1 / 60) (rnds j)) [0 ..< ?n] e),
            replicate ?n (CallUpdate (1 / 60)) @ [CallDraw])"
    unfolding t d by (simp only: prod.case fixed_step_def)
  moreover have "min (now - timestamp st) 0.05 \<le> (0.05::real)"
    by (rule min.cobounded2)
  moreover have "?a - real ?n * (1 / 60) < 1 / 60"
    using drain_remainder [of ?a] by (simp only: fixed_step_def)
  ultimately show ?thesis by blast
qed

theorem tick_fixed_step_witness:
  "tick (51 / 5) (\<lambda>j. no_rolls) True (\<lparr>timestamp = 10, accum = 1 / 100\<rparr>, title_engine) =
     ((\<lparr>timestamp = 51 / 5, accum = 1 / 100\<rparr>,
       update (1 / 60) no_rolls (update (1 / 60) no_rolls (update (1 / 60) no_rolls title_engine))),
      [CallUpdate (1 / 60), CallUpdate (1 / 60), CallUpdate (1 / 60), CallDraw])"
proof -
  have n: "nat \<lfloor>(1 / 100 + min (51 / 5 - 10) (0.05::real)) * 60\<rfloor> = 3"
    by simp
  have u: "[0 ..< 3] = [0, 1, 2::nat]"
    by (simp add: upt_rec)
  have r: "replicate 3 (CallUpdate (1 / 60)) = [CallUpdate (1 / 60), CallUpdate (1 / 60), CallUpdate (1 / 60)]"
    by (simp add: numeral_3_eq_3)
  from tick_fixed_step [of True "51 / 5" "\<lambda>j. no_rolls" "\<lparr>timestamp = 10, accum = 1 / 100\<rparr>" title_engine]
  show ?thesis
    by (simp add: n u r)
qed

section \<open>At most one hit in a step\<close>

text \<open>
  Claim C9. In one call of \<^verbatim>\<open>update\<close> at most one obstacle hit registers: hearts go down
  by at most 1 and \<^verbatim>\<open>playSfx("hit")\<close> is called at most once, and one run of the obstacle
  loop raises the \<open>hit\<close> flag of at most one obstacle. The reason is the cooldown: the
  first hit sets it to \<open>HIT_BUFFER\<close> (0.6, positive), and every later iteration of the
  loop tests \<^verbatim>\<open>p.hitCooldown <= 0\<close>. The bound on hearts needs the counter to be within
  its cap, since the code clamps to 6.
\<close>

theorem one_hit_per_step:
  assumes "0 < HIT_BUFFER e" and "hearts e \<le> 6"
  shows "hearts e - 1 \<le> hearts (update dt rnd e) \<and>
         count_list (events (update dt rnd e)) (PlaySfx SfxHit)
           \<le> count_list (events e) (PlaySfx SfxHit) + 1 \<and>
         (obstacle_collisions e = (ret, e1) \<longrightarrow>
            length (filter hit (obstacles e1)) \<le> length (filter hit (obstacles e)) + 1 \<and>
            hearts e - 1 \<le> hearts e1)"
proof -
  have a: "hearts e - 1 \<le> hearts (update dt rnd e) \<and>
         count_list (events (update dt rnd e)) (PlaySfx SfxHit)
           \<le> count_list (events e) (PlaySfx SfxHit) + 1"
  proof (cases "state e = PLAYING")
    case True
    from update_one_hit [OF True assms(1), of dt rnd] assms(2) show ?thesis
      by (auto simp: clamp_def)
  next
    case False
    then have "update dt rnd e = advance_world dt e"
      by (simp add: update_def Let_def advance_world_lives)
    then show ?thesis by (simp add: advance_world_lives)
  qed
  have b: "obstacle_collisions e = (ret, e1) \<longrightarrow>
            length (filter hit (obstacles e1)) \<le> length (filter hit (obstacles e)) + 1 \<and>
            hearts e - 1 \<le> hearts e1"
  proof
    assume c: "obstacle_collisions e = (ret, e1)"
    from obstacle_collisions_one_hit [OF c assms(1)] assms(2)
    show "length (filter hit (obstacles e1)) \<le> length (filter hit (obstacles e)) + 1 \<and>
            hearts e - 1 \<le> hearts e1"
      by (auto simp: clamp_def dest: length_filter_hit_cong)
  qed
  from a b show ?thesis by simp
qed

theorem one_hit_per_step_witness:
  "0 < HIT_BUFFER two_mushrooms_engine \<and> hearts two_mushrooms_engine = 3 \<and>
   hearts (update fixed_step no_rolls two_mushrooms_engine) = 2 \<and>
   count_list (events (update fixed_step no_rolls two_mushrooms_engine)) (PlaySfx SfxHit) = 1 \<and>
   map hit (obstacles (snd (obstacle_collisions two_mushrooms_engine))) = [True, False]"
proof -
  have a: "0 < HIT_BUFFER two_mushrooms_engine \<and> hearts two_mushrooms_engine = 3 \<and>
      events two_mushrooms_engine = []"
    by (simp add: two_mushrooms_engine_def sample_defs Let_def)
  have b: "hearts (update fixed_step no_rolls two_mushrooms_engine) = 2"
    by (simp add: two_mushrooms_engine_def phase_defs sample_defs Let_def)
  have c: "events (update fixed_step no_rolls two_mushrooms_engine)
           = [OnHeartsChange 2, PlaySfx SfxHit]"
    by (simp add: two_mushrooms_engine_def phase_defs sample_defs Let_def)
  have d: "map hit (obstacles (snd (obstacle_collisions two_mushrooms_engine))) = [True, False]"
    by (simp add: two_mushrooms_engine_def phase_defs sample_defs Let_def)
  from a b c d
    one_hit_per_step [of two_mushrooms_engine fixed_step no_rolls
      "fst (obstacle_collisions two_mushrooms_engine)"
      "snd (obstacle_collisions two_mushrooms_engine)"]
  show ?thesis by simp
qed

section \<open>Steps outside a session\<close>

text \<open>
  Claim C10. A call of \<^verbatim>\<open>update\<close> in a state other than \<open>PLAYING\<close> changes one field of
  the game record only, the world clock \<open>t\<close>: it advances by \<open>dt\<close> in \<open>TITLE\<close> and
  \<open>GAMEOVER\<close> and stands still in \<open>PAUSED\<close>. Player, obstacles, pickups, timers, speed,
  background offset, score and hearts keep their values. (The phases of the fireflies,
  which live in a cell of their own, advance in every state.)
\<close>

theorem update_outside_playing:
  "state e \<noteq> PLAYING \<Longrightarrow>
   update dt rnd e =
     e\<lparr>t := (if state e = PAUSED then t e else t e + dt),
        fireflies := map (twinkle_fly dt) (fireflies e)\<rparr>"
  by (simp add: update_def advance_world_def Let_def)

theorem update_outside_playing_witness:
  "state title_engine \<noteq> PLAYING \<and>
   state (pauseGame playing_engine) \<noteq> PLAYING \<and>
   update fixed_step no_rolls title_engine =
     title_engine\<lparr>t := 1 / 60,
                  fireflies := [\<lparr>x = 100, y = 50, r = 2, phase = 11 / 300, twinkle = 1\<rparr>]\<rparr> \<and>
   update fixed_step no_rolls (pauseGame playing_engine) =
     (pauseGame playing_engine)
        \<lparr>fireflies := [\<lparr>x = 100, y = 50, r = 2, phase = 11 / 300, twinkle = 1\<rparr>]\<rparr>"
  using update_outside_playing [of title_engine fixed_step no_rolls]
    update_outside_playing [of "pauseGame playing_engine" fixed_step no_rolls]
  by (simp add: title_engine_def playing_engine_def startGame_def pauseGame_def
      fixed_step_def twinkle_fly_def Let_def)

end
